theory Spec2Isabelle
  imports Complex_Main
begin

section \<open>Numeric layer\<close>

text \<open>
  The program computes with numpy float64 arrays. The model idealises a float64 as an
  exact real number together with the three non-finite values that numpy produces
  instead of raising: a division by zero yields an infinity or NaN (with a warning only),
  and NaN propagates through every later operation. Rounding, overflow and the sign of
  zero are not modelled.
\<close>

datatype npfloat = Fin real | PInf | NInf | NaN

datatype error = NameError | ValueError | TypeError | IndexError | ExternalError

fun is_fin :: "npfloat \<Rightarrow> bool" where
  "is_fin (Fin a) = True"
| "is_fin PInf = False"
| "is_fin NInf = False"
| "is_fin NaN = False"

fun the_fin :: "npfloat \<Rightarrow> real" where
  "the_fin (Fin a) = a"
| "the_fin PInf = 0"
| "the_fin NInf = 0"
| "the_fin NaN = 0"

definition inf_of_sign :: "real \<Rightarrow> npfloat" where
  "inf_of_sign s = (if 0 < s then PInf else if s < 0 then NInf else NaN)"

fun fadd :: "npfloat \<Rightarrow> npfloat \<Rightarrow> npfloat" where
  "fadd (Fin a) (Fin b) = Fin (a + b)"
| "fadd (Fin a) PInf = PInf"
| "fadd (Fin a) NInf = NInf"
| "fadd (Fin a) NaN = NaN"
| "fadd PInf (Fin b) = PInf"
| "fadd PInf PInf = PInf"
| "fadd PInf NInf = NaN"
| "fadd PInf NaN = NaN"
| "fadd NInf (Fin b) = NInf"
| "fadd NInf PInf = NaN"
| "fadd NInf NInf = NInf"
| "fadd NInf NaN = NaN"
| "fadd NaN b = NaN"

fun fneg :: "npfloat \<Rightarrow> npfloat" where
  "fneg (Fin a) = Fin (- a)"
| "fneg PInf = NInf"
| "fneg NInf = PInf"
| "fneg NaN = NaN"

definition fsub :: "npfloat \<Rightarrow> npfloat \<Rightarrow> npfloat" where
  "fsub a b = fadd a (fneg b)"

fun fmul :: "npfloat \<Rightarrow> npfloat \<Rightarrow> npfloat" where
  "fmul (Fin a) (Fin b) = Fin (a * b)"
| "fmul (Fin a) PInf = inf_of_sign a"
| "fmul (Fin a) NInf = inf_of_sign (- a)"
| "fmul (Fin a) NaN = NaN"
| "fmul PInf (Fin b) = inf_of_sign b"
| "fmul PInf PInf = PInf"
| "fmul PInf NInf = NInf"
| "fmul PInf NaN = NaN"
| "fmul NInf (Fin b) = inf_of_sign (- b)"
| "fmul NInf PInf = NInf"
| "fmul NInf NInf = PInf"
| "fmul NInf NaN = NaN"
| "fmul NaN b = NaN"

fun fdiv :: "npfloat \<Rightarrow> npfloat \<Rightarrow> npfloat" where
  "fdiv (Fin a) (Fin b) = (if b = 0 then inf_of_sign a else Fin (a / b))"
| "fdiv (Fin a) PInf = Fin 0"
| "fdiv (Fin a) NInf = Fin 0"
| "fdiv (Fin a) NaN = NaN"
| "fdiv PInf (Fin b) = (if 0 \<le> b then PInf else NInf)"
| "fdiv PInf PInf = NaN"
| "fdiv PInf NInf = NaN"
| "fdiv PInf NaN = NaN"
| "fdiv NInf (Fin b) = (if 0 \<le> b then NInf else PInf)"
| "fdiv NInf PInf = NaN"
| "fdiv NInf NInf = NaN"
| "fdiv NInf NaN = NaN"
| "fdiv NaN b = NaN"

fun fabs :: "npfloat \<Rightarrow> npfloat" where
  "fabs (Fin a) = Fin \<bar>a\<bar>"
| "fabs PInf = PInf"
| "fabs NInf = PInf"
| "fabs NaN = NaN"

fun flog :: "npfloat \<Rightarrow> npfloat" where
  "flog (Fin a) = (if 0 < a then Fin (ln a) else if a = 0 then NInf else NaN)"
| "flog PInf = PInf"
| "flog NInf = NaN"
| "flog NaN = NaN"

text \<open>Comparisons: every comparison with NaN is false.\<close>

fun flt :: "npfloat \<Rightarrow> npfloat \<Rightarrow> bool" where
  "flt (Fin a) (Fin b) = (a < b)"
| "flt (Fin a) PInf = True"
| "flt (Fin a) NInf = False"
| "flt (Fin a) NaN = False"
| "flt PInf b = False"
| "flt NInf (Fin b) = True"
| "flt NInf PInf = True"
| "flt NInf NInf = False"
| "flt NInf NaN = False"
| "flt NaN b = False"

definition fgt :: "npfloat \<Rightarrow> npfloat \<Rightarrow> bool" where
  "fgt a b = flt b a"

definition fle :: "npfloat \<Rightarrow> npfloat \<Rightarrow> bool" where
  "fle a b = (flt a b \<or> (a = b \<and> a \<noteq> NaN))"

section \<open>Vectors and matrices\<close>

text \<open>
  A one-dimensional array is a list, a two-dimensional array the list of its rows.
  The operations below are the numpy calls of the source, entry by entry.
\<close>

type_synonym vec = "npfloat list"
type_synonym matrix = "npfloat list list"

definition fsum :: "vec \<Rightarrow> npfloat" where
  "fsum xs = foldr fadd xs (Fin 0)"

definition vmul :: "vec \<Rightarrow> vec \<Rightarrow> vec" where
  "vmul xs ys = map2 fmul xs ys"

definition vadd :: "vec \<Rightarrow> vec \<Rightarrow> vec" where
  "vadd xs ys = map2 fadd xs ys"

definition vscale :: "vec \<Rightarrow> npfloat \<Rightarrow> vec" where
  "vscale xs c = map (\<lambda>x. fmul x c) xs"

definition vdivs :: "vec \<Rightarrow> npfloat \<Rightarrow> vec" where
  "vdivs xs c = map (\<lambda>x. fdiv x c) xs"

definition ncols :: "matrix \<Rightarrow> nat" where
  "ncols A = (case A of [] \<Rightarrow> 0 | r # _ \<Rightarrow> length r)"

definition col :: "matrix \<Rightarrow> nat \<Rightarrow> vec" where
  "col A j = map (\<lambda>r. r ! j) A"

definition set_col :: "matrix \<Rightarrow> nat \<Rightarrow> vec \<Rightarrow> matrix" where
  "set_col A j v = map2 (\<lambda>r x. r[j := x]) A v"

definition mtranspose :: "matrix \<Rightarrow> matrix" where
  "mtranspose A = map (col A) [0..<ncols A]"

definition dot :: "matrix \<Rightarrow> matrix \<Rightarrow> matrix" where
  "dot A B = map (\<lambda>r. map (\<lambda>j. fsum (vmul r (col B j))) [0..<ncols B]) A"

definition diagflat :: "vec \<Rightarrow> matrix" where
  "diagflat v = map (\<lambda>s. map (\<lambda>t. if s = t then v ! s else Fin 0) [0..<length v]) [0..<length v]"

definition outer :: "vec \<Rightarrow> vec \<Rightarrow> matrix" where
  "outer u v = map (\<lambda>a. map (\<lambda>b. fmul a b) v) u"

definition ones :: "nat \<Rightarrow> vec" where
  "ones c = replicate c (Fin 1)"

definition zeros :: "nat \<Rightarrow> vec" where
  "zeros c = replicate c (Fin 0)"

definition zeros2 :: "nat \<Rightarrow> nat \<Rightarrow> matrix" where
  "zeros2 r c = replicate r (zeros c)"

definition eye :: "nat \<Rightarrow> matrix" where
  "eye c = map (\<lambda>s. map (\<lambda>t. if s = t then Fin 1 else Fin 0) [0..<c]) [0..<c]"

definition sum_axis0 :: "nat \<Rightarrow> matrix \<Rightarrow> vec" where
  "sum_axis0 c A = map (\<lambda>j. fsum (col A j)) [0..<c]"

definition sum_axis1 :: "matrix \<Rightarrow> vec" where
  "sum_axis1 A = map fsum A"

definition madd :: "matrix \<Rightarrow> matrix \<Rightarrow> matrix" where
  "madd A B = map2 vadd A B"

definition msub :: "matrix \<Rightarrow> matrix \<Rightarrow> matrix" where
  "msub A B = map2 (map2 fsub) A B"

definition mdiv :: "matrix \<Rightarrow> matrix \<Rightarrow> matrix" where
  "mdiv A B = map2 (map2 fdiv) A B"

definition mdivs :: "matrix \<Rightarrow> npfloat \<Rightarrow> matrix" where
  "mdivs A c = map (\<lambda>r. vdivs r c) A"

section \<open>The bounding helper\<close>

text \<open>
  \<^verbatim>\<open>bounded_variable(x, lo, hi)\<close> runs \<^verbatim>\<open>x[x>hi]=hi\<close> and then \<^verbatim>\<open>x[x<lo]=lo\<close>
  on an array: two passes, the second over the outcome of the first.
\<close>

definition bound1 :: "npfloat \<Rightarrow> npfloat \<Rightarrow> npfloat \<Rightarrow> npfloat" where
  "bound1 lo hi x =
     (let x1 = (if fgt x hi then hi else x)
      in if flt x1 lo then lo else x1)"

definition bounded_variable :: "vec \<Rightarrow> npfloat \<Rightarrow> npfloat \<Rightarrow> vec" where
  "bounded_variable x lo hi = map (bound1 lo hi) x"

section \<open>The parameter store\<close>

text \<open>
  The fields of class \<^verbatim>\<open>MDA\<close>, under the names of the source; the one-letter
  attributes \<^verbatim>\<open>Y\<close>, \<^verbatim>\<open>X\<close>, \<^verbatim>\<open>n\<close>, \<^verbatim>\<open>m\<close>, \<^verbatim>\<open>k\<close> carry the prefix
  \<open>self_\<close>. The arrays \<^verbatim>\<open>mu[i]\<close> are \<open>m \<times> clusters[i]\<close>, the arrays
  \<^verbatim>\<open>responsibilities[i]\<close> are \<open>n \<times> clusters[i]\<close>.
\<close>

record mda =
  self_Y :: matrix
  self_X :: matrix
  self_n :: nat
  self_m :: nat
  self_k :: nat
  clusters :: "nat list"
  class_prior :: vec
  latent_var_prior :: "vec list"
  freq :: vec
  covar :: matrix
  mu :: "matrix list"
  responsibilities :: "matrix list"
  lower_bounds :: "npfloat list"
  kmeans_maxiter :: int
  kmeans_retsarts :: int
  max_iter :: int
  kmeans_theshold :: real
  mda_threshold :: real
  verbose :: bool
  accuracy :: real

text \<open>The keyword arguments of \<^verbatim>\<open>__init__\<close> and their default values.\<close>

record config =
  max_iter_init :: int
  init_restarts :: int
  init_conv_theshold :: real
  iter_conv_threshold :: real
  cfg_max_iter :: int
  cfg_verbose :: bool
  cfg_accuracy :: real

definition default_config :: config where
  "default_config =
     \<lparr>max_iter_init = 300, init_restarts = 2, init_conv_theshold = 1 / 10 ^ 5,
      iter_conv_threshold = 1 / 10 ^ 20, cfg_max_iter = 300, cfg_verbose = True,
      cfg_accuracy = 1 / 10 ^ 5\<rparr>"

definition MDA_init :: "matrix \<Rightarrow> matrix \<Rightarrow> nat list \<Rightarrow> nat \<Rightarrow> config \<Rightarrow> mda" where
  "MDA_init gt X0 cl k0 cfg =
     \<lparr>self_Y = gt,
      self_X = X0,
      self_n = length X0,
      self_m = ncols X0,
      self_k = k0,
      clusters = cl,
      class_prior = zeros (ncols X0),
      latent_var_prior = map (\<lambda>i. vdivs (ones (cl ! i)) (Fin (real (cl ! i)))) [0..<k0],
      freq = sum_axis0 (ncols gt) gt,
      covar = eye (ncols X0),
      mu = map (\<lambda>i. zeros2 (ncols X0) (cl ! i)) [0..<k0],
      responsibilities =
        map (\<lambda>i. map (map (fmul (Fin (1 / 1000)))) (zeros2 (length X0) (cl ! i))) [0..<k0],
      lower_bounds = [],
      kmeans_maxiter = max_iter_init cfg,
      kmeans_retsarts = init_restarts cfg,
      max_iter = cfg_max_iter cfg,
      kmeans_theshold = init_conv_theshold cfg,
      mda_threshold = iter_conv_threshold cfg,
      verbose = cfg_verbose cfg,
      accuracy = cfg_accuracy cfg\<rparr>"

section \<open>Loops that can fail\<close>

fun for_loop :: "('a \<Rightarrow> 's \<Rightarrow> error + 's) \<Rightarrow> 'a list \<Rightarrow> 's \<Rightarrow> error + 's" where
  "for_loop f [] s = Inr s"
| "for_loop f (x # xs) s = (case f x s of Inl e \<Rightarrow> Inl e | Inr s' \<Rightarrow> for_loop f xs s')"

text \<open>
  Assignment of a one-dimensional array to a column, \<^verbatim>\<open>A[:,j] = v\<close>: the lengths
  agree, or a single value is broadcast, or numpy raises.
\<close>

definition assign_col :: "matrix \<Rightarrow> nat \<Rightarrow> vec \<Rightarrow> error + matrix" where
  "assign_col A j v =
     (if length v = length A then Inr (set_col A j v)
      else if length v = 1 then Inr (set_col A j (replicate (length A) (hd v)))
      else Inl ValueError)"

section \<open>External primitives\<close>

text \<open>
  \<^verbatim>\<open>scipy.stats.multivariate_normal.pdf(X, mean, cov)\<close> is not part of the repository:
  it is a parameter, a function from the data, a mean and a covariance to one density
  per row, or to an error; a result of any other length is a shape error at its first
  use. \<^verbatim>\<open>sklearn.cluster.KMeans\<close> likewise: the parameter
  receives the keyword arguments of the constructor call and the rows passed to
  \<^verbatim>\<open>fit\<close> and \<^verbatim>\<open>predict\<close>, and returns one label per row.
\<close>

type_synonym pdf_fn = "matrix \<Rightarrow> vec \<Rightarrow> matrix \<Rightarrow> error + vec"

record kmeans_args =
  n_clusters :: nat
  arg_max_iter :: int
  arg_init :: string
  arg_tol :: real
  arg_n_init :: "int option"

type_synonym kmeans_fn = "kmeans_args \<Rightarrow> matrix \<Rightarrow> error + nat list"

section \<open>E-step\<close>

definition e_step_component ::
  "pdf_fn \<Rightarrow> mda \<Rightarrow> nat \<Rightarrow> nat \<Rightarrow> matrix \<times> npfloat \<Rightarrow> error + (matrix \<times> npfloat)" where
  "e_step_component pdf st i j acc =
     (case acc of (resp_k, lower_bound) \<Rightarrow>
      case pdf (self_X st) (col (mu st ! i) j) (covar st) of
        Inl e \<Rightarrow> Inl e
      | Inr d \<Rightarrow>
          if length d \<noteq> length resp_k then Inl ValueError
          else
            let prior = bounded_variable d (Fin (accuracy st)) (Fin (1 - accuracy st));
                weighting = vmul (col (self_Y st) i) (col resp_k j);
                w = vadd (vmul weighting (map flog prior))
                         (vscale weighting (flog (latent_var_prior st ! i ! j)));
                lower_bound' = fadd lower_bound (fsum w)
            in Inr (set_col resp_k j (vscale prior (latent_var_prior st ! i ! j)),
                    lower_bound'))"

definition normalise_rows :: "matrix \<Rightarrow> nat \<Rightarrow> matrix" where
  "normalise_rows resp_k c =
     (let normaliser = sum_axis1 resp_k
      in mdiv resp_k (outer normaliser (ones c)))"

definition e_step_class ::
  "pdf_fn \<Rightarrow> nat \<Rightarrow> mda \<times> npfloat \<Rightarrow> error + (mda \<times> npfloat)" where
  "e_step_class pdf i acc =
     (case acc of (st, lower_bound) \<Rightarrow>
      case for_loop (e_step_component pdf st i) [0..<clusters st ! i]
             (responsibilities st ! i, lower_bound) of
        Inl e \<Rightarrow> Inl e
      | Inr (resp_k, lower_bound') \<Rightarrow>
          Inr (st\<lparr>responsibilities :=
                    (responsibilities st)[i := normalise_rows resp_k (clusters st ! i)]\<rparr>,
               lower_bound'))"

definition e_step_lower_bound_likelihood :: "pdf_fn \<Rightarrow> mda \<Rightarrow> error + mda" where
  "e_step_lower_bound_likelihood pdf st =
     (case for_loop (e_step_class pdf) [0..<length (responsibilities st)] (st, Fin 0) of
        Inl e \<Rightarrow> Inl e
      | Inr (st', lower_bound) \<Rightarrow>
          Inr (st'\<lparr>lower_bounds := lower_bounds st' @ [lower_bound]\<rparr>))"

section \<open>M-step\<close>

text \<open>
  The body of the double loop of \<^verbatim>\<open>_m_step\<close>. The weighted means are computed from
  the name \<^verbatim>\<open>X\<close>, which is not an attribute of the object: Python looks it up among
  the globals of the module at the time of the call. The argument \<open>gX\<close> is that
  global: \<open>None\<close> when the name is unbound, which raises \<^verbatim>\<open>NameError\<close>. The
  centring two lines below reads \<^verbatim>\<open>self.X\<close>.
\<close>

definition m_step_component ::
  "matrix option \<Rightarrow> nat \<Rightarrow> nat \<Rightarrow> mda \<times> matrix \<Rightarrow> error + (mda \<times> matrix)" where
  "m_step_component gX i j acc =
     (case acc of (st, cv) \<Rightarrow>
      let class_indicator = vmul (col (self_Y st) i) (col (responsibilities st ! i) j);
          st1 = st\<lparr>latent_var_prior :=
                     (latent_var_prior st)
                       [i := (latent_var_prior st ! i)
                               [j := fdiv (fsum class_indicator) (freq st ! i)]]\<rparr>
      in case gX of
           None \<Rightarrow> Inl NameError
         | Some G \<Rightarrow>
             if length G \<noteq> length class_indicator then Inl ValueError
             else
               let weighted_means = sum_axis1 (dot (mtranspose G) (diagflat class_indicator))
               in case assign_col (mu st1 ! i) j
                         (vdivs weighted_means (fsum class_indicator)) of
                    Inl e \<Rightarrow> Inl e
                  | Inr mu_i \<Rightarrow>
                      let st2 = st1\<lparr>mu := (mu st1)[i := mu_i]\<rparr>;
                          centered = msub (self_X st2)
                                       (mtranspose (outer (col (mu st2 ! i) j)
                                                          (ones (self_n st2))));
                          addition = dot (dot (mtranspose centered)
                                              (diagflat class_indicator)) centered
                      in Inr (st2, madd cv addition))"

definition m_step_class ::
  "matrix option \<Rightarrow> nat \<Rightarrow> mda \<times> matrix \<Rightarrow> error + (mda \<times> matrix)" where
  "m_step_class gX i acc =
     for_loop (m_step_component gX i) [0..<clusters (fst acc) ! i] acc"

definition m_step :: "matrix option \<Rightarrow> mda \<Rightarrow> error + mda" where
  "m_step gX st =
     (case for_loop (m_step_class gX) [0..<self_k st] (st, zeros2 (self_m st) (self_m st)) of
        Inl e \<Rightarrow> Inl e
      | Inr (st', cv) \<Rightarrow> Inr (st'\<lparr>covar := mdivs cv (Fin (real (self_n st')))\<rparr>))"

section \<open>Inference\<close>

definition posterior_component ::
  "pdf_fn \<Rightarrow> mda \<Rightarrow> nat \<Rightarrow> nat \<Rightarrow> vec \<Rightarrow> error + vec" where
  "posterior_component pdf st c j class_prob =
     (case pdf (self_X st) (col (mu st ! c) j) (covar st) of
        Inl e \<Rightarrow> Inl e
      | Inr d \<Rightarrow>
          if length d \<noteq> length class_prob then Inl ValueError
          else
            let p = bounded_variable d (Fin (accuracy st)) (Fin (1 - accuracy st))
            in Inr (vadd class_prob (vscale p (latent_var_prior st ! c ! j))))"

definition posterior_class :: "pdf_fn \<Rightarrow> mda \<Rightarrow> nat \<Rightarrow> matrix \<Rightarrow> error + matrix" where
  "posterior_class pdf st c posterior =
     (case for_loop (posterior_component pdf st c) [0..<clusters st ! c] (zeros (self_n st)) of
        Inl e \<Rightarrow> Inl e
      | Inr class_prob \<Rightarrow>
          if self_k st \<le> c then Inl IndexError
          else Inr (set_col posterior c (vscale class_prob (class_prior st ! c))))"

definition posterior_probs :: "pdf_fn \<Rightarrow> mda \<Rightarrow> error + matrix" where
  "posterior_probs pdf st =
     (case for_loop (posterior_class pdf st) [0..<length (clusters st)]
             (zeros2 (self_n st) (self_k st)) of
        Inl e \<Rightarrow> Inl e
      | Inr posterior \<Rightarrow>
          Inr (mdiv posterior (outer (sum_axis1 posterior) (ones (self_k st)))))"

text \<open>
  The method is declared \<^verbatim>\<open>def posterior_probs(self)\<close>: a call that passes anything
  besides the object raises \<^verbatim>\<open>TypeError\<close> before the body runs.
\<close>

definition call_posterior_probs :: "pdf_fn \<Rightarrow> mda \<Rightarrow> matrix list \<Rightarrow> error + matrix" where
  "call_posterior_probs pdf st args =
     (if args \<noteq> [] then Inl TypeError else posterior_probs pdf st)"

section \<open>Initialisation\<close>

definition class_prior_compute :: "mda \<Rightarrow> mda" where
  "class_prior_compute st = st\<lparr>class_prior := vdivs (freq st) (fsum (freq st))\<rparr>"

definition kmeans_call :: "mda \<Rightarrow> nat \<Rightarrow> kmeans_args" where
  "kmeans_call st cluster =
     \<lparr>n_clusters = cluster, arg_max_iter = kmeans_maxiter st, arg_init = ''k-means++'',
      arg_tol = kmeans_theshold st, arg_n_init = None\<rparr>"

definition class_mask :: "mda \<Rightarrow> nat \<Rightarrow> bool list" where
  "class_mask st i = map (\<lambda>y. y = Fin 1) (col (self_Y st) i)"

definition class_rows :: "mda \<Rightarrow> nat \<Rightarrow> matrix" where
  "class_rows st i = map snd (filter fst (zip (class_mask st i) (self_X st)))"

text \<open>\<^verbatim>\<open>A[mask, j] = v\<close>: the rows selected by the mask receive the values of \<open>v\<close> in order.\<close>

fun masked_assign_col :: "matrix \<Rightarrow> bool list \<Rightarrow> nat \<Rightarrow> vec \<Rightarrow> matrix" where
  "masked_assign_col (r # rs) (True # ms) j (x # v) = r[j := x] # masked_assign_col rs ms j v"
| "masked_assign_col (r # rs) (False # ms) j v = r # masked_assign_col rs ms j v"
| "masked_assign_col rs ms j v = rs"

definition one_hot :: "nat list \<Rightarrow> nat \<Rightarrow> vec" where
  "one_hot prediction j = map (\<lambda>p. if p = j then Fin 1 else Fin 0) prediction"

definition init_class :: "kmeans_fn \<Rightarrow> nat \<Rightarrow> mda \<Rightarrow> error + mda" where
  "init_class kmeans i st =
     (case kmeans (kmeans_call st (clusters st ! i)) (class_rows st i) of
        Inl e \<Rightarrow> Inl e
      | Inr prediction \<Rightarrow>
          if length prediction \<noteq> length (class_rows st i) then Inl ValueError
          else
            Inr (st\<lparr>responsibilities :=
                      (responsibilities st)
                        [i := fold (\<lambda>j R. masked_assign_col R (class_mask st i) j
                                             (one_hot prediction j))
                                   [0..<clusters st ! i] (responsibilities st ! i)]\<rparr>))"

definition initialise_params :: "kmeans_fn \<Rightarrow> matrix option \<Rightarrow> mda \<Rightarrow> error + mda" where
  "initialise_params kmeans gX st =
     (case for_loop (init_class kmeans) [0..<length (clusters st)] (class_prior_compute st) of
        Inl e \<Rightarrow> Inl e
      | Inr st' \<Rightarrow> m_step gX st')"

section \<open>The EM loop\<close>

text \<open>
  The \<^verbatim>\<open>for\<close> loop of \<^verbatim>\<open>_iterate\<close> leaves in one of two ways: through
  \<^verbatim>\<open>break\<close>, after printing that the algorithm converged, or by exhausting
  \<^verbatim>\<open>range(self.max_iter)\<close>. The variable \<^verbatim>\<open>delta\<close> starts at 1 and keeps its value
  while the history is shorter than two entries.
\<close>

datatype loop_exit = Converged | MaxIterReached

definition new_delta :: "npfloat \<Rightarrow> npfloat list \<Rightarrow> npfloat" where
  "new_delta delta lbs =
     (if 2 \<le> length lbs
      then fdiv (fsub (lbs ! (length lbs - 1)) (lbs ! (length lbs - 2)))
                (fabs (lbs ! (length lbs - 2)))
      else delta)"

fun iterate_from ::
  "pdf_fn \<Rightarrow> matrix option \<Rightarrow> nat \<Rightarrow> npfloat \<Rightarrow> mda \<Rightarrow> error + (loop_exit \<times> mda)" where
  "iterate_from pdf gX 0 delta st = Inr (MaxIterReached, st)"
| "iterate_from pdf gX (Suc r) delta st =
     (case e_step_lower_bound_likelihood pdf st of
        Inl e \<Rightarrow> Inl e
      | Inr st1 \<Rightarrow>
          let delta' = new_delta delta (lower_bounds st1)
          in if fgt delta' (Fin (mda_threshold st1))
             then (case m_step gX st1 of
                     Inl e \<Rightarrow> Inl e
                   | Inr st2 \<Rightarrow> iterate_from pdf gX r delta' st2)
             else Inr (Converged, st1))"

definition iterate :: "pdf_fn \<Rightarrow> matrix option \<Rightarrow> mda \<Rightarrow> error + (loop_exit \<times> mda)" where
  "iterate pdf gX st = iterate_from pdf gX (nat (max_iter st)) (Fin 1) st"

definition train ::
  "kmeans_fn \<Rightarrow> pdf_fn \<Rightarrow> matrix option \<Rightarrow> mda \<Rightarrow> error + (loop_exit \<times> mda)" where
  "train kmeans pdf gX st =
     (case initialise_params kmeans gX st of
        Inl e \<Rightarrow> Inl e
      | Inr st' \<Rightarrow> iterate pdf gX st')"

section \<open>Notions used in the statements\<close>

text \<open>
  The shapes that \<^verbatim>\<open>__init__\<close> gives the arrays of the object, for data with at least
  one row and one column.
\<close>

definition has_shape :: "nat \<Rightarrow> nat \<Rightarrow> matrix \<Rightarrow> bool" where
  "has_shape r c A = (length A = r \<and> (\<forall>x\<in>set A. length x = c))"

definition wf_store :: "mda \<Rightarrow> bool" where
  "wf_store st =
     (0 < self_n st \<and> 0 < self_m st
      \<and> has_shape (self_n st) (self_m st) (self_X st)
      \<and> has_shape (self_n st) (self_k st) (self_Y st)
      \<and> length (clusters st) = self_k st
      \<and> length (freq st) = self_k st
      \<and> length (latent_var_prior st) = self_k st
      \<and> length (mu st) = self_k st
      \<and> length (responsibilities st) = self_k st
      \<and> (\<forall>i<self_k st.
            length (latent_var_prior st ! i) = clusters st ! i
            \<and> has_shape (self_m st) (clusters st ! i) (mu st ! i)
            \<and> has_shape (self_n st) (clusters st ! i) (responsibilities st ! i)))"



text \<open>The densities of component \<open>j\<close> of class \<open>c\<close> after clipping, and times the mixing weight.\<close>

definition clipped :: "pdf_fn \<Rightarrow> mda \<Rightarrow> nat \<Rightarrow> nat \<Rightarrow> vec" where
  "clipped pdf st c j =
     (case pdf (self_X st) (col (mu st ! c) j) (covar st) of
        Inl e \<Rightarrow> []
      | Inr d \<Rightarrow> bounded_variable d (Fin (accuracy st)) (Fin (1 - accuracy st)))"

definition unnorm :: "pdf_fn \<Rightarrow> mda \<Rightarrow> nat \<Rightarrow> nat \<Rightarrow> vec" where
  "unnorm pdf st c j = vscale (clipped pdf st c j) (latent_var_prior st ! c ! j)"

text \<open>
  The weight vector \<^verbatim>\<open>Y[:,i] * responsibilities[i][:,j]\<close> of a component, its mass, and
  the scatter matrix \<^verbatim>\<open>centered.T . diagflat(w) . centered\<close> around a mean \<open>v\<close>.
\<close>

definition weight_vector :: "mda \<Rightarrow> nat \<Rightarrow> nat \<Rightarrow> vec" where
  "weight_vector st i j = vmul (col (self_Y st) i) (col (responsibilities st ! i) j)"

definition mass :: "mda \<Rightarrow> nat \<Rightarrow> nat \<Rightarrow> npfloat" where
  "mass st i j = fsum (weight_vector st i j)"

definition weighted_mean :: "matrix \<Rightarrow> mda \<Rightarrow> nat \<Rightarrow> nat \<Rightarrow> vec" where
  "weighted_mean G st i j =
     vdivs (sum_axis1 (dot (mtranspose G) (diagflat (weight_vector st i j)))) (mass st i j)"

definition scatter :: "mda \<Rightarrow> nat \<Rightarrow> nat \<Rightarrow> vec \<Rightarrow> matrix" where
  "scatter st i j v =
     (let centered = msub (self_X st) (mtranspose (outer v (ones (self_n st))))
      in dot (dot (mtranspose centered) (diagflat (weight_vector st i j))) centered)"

definition components :: "mda \<Rightarrow> (nat \<times> nat) list" where
  "components st = concat (map (\<lambda>i. map (Pair i) [0..<clusters st ! i]) [0..<self_k st])"




text \<open>
  The attributes that neither step of the EM loop assigns, and the frames of the two steps:
  the M-step leaves the responsibilities and the history alone, the E-step the parameters.
\<close>

definition same_data :: "mda \<Rightarrow> mda \<Rightarrow> bool" where
  "same_data st st' =
     (self_Y st' = self_Y st \<and> self_X st' = self_X st \<and> self_n st' = self_n st
      \<and> self_m st' = self_m st \<and> self_k st' = self_k st \<and> clusters st' = clusters st
      \<and> class_prior st' = class_prior st \<and> freq st' = freq st
      \<and> kmeans_maxiter st' = kmeans_maxiter st \<and> kmeans_retsarts st' = kmeans_retsarts st
      \<and> max_iter st' = max_iter st \<and> kmeans_theshold st' = kmeans_theshold st
      \<and> mda_threshold st' = mda_threshold st \<and> verbose st' = verbose st
      \<and> accuracy st' = accuracy st)"

definition m_frame :: "mda \<Rightarrow> mda \<Rightarrow> bool" where
  "m_frame st st' =
     (same_data st st' \<and> responsibilities st' = responsibilities st
      \<and> lower_bounds st' = lower_bounds st)"

definition e_frame :: "mda \<Rightarrow> mda \<Rightarrow> bool" where
  "e_frame st st' =
     (same_data st st' \<and> latent_var_prior st' = latent_var_prior st
      \<and> mu st' = mu st \<and> covar st' = covar st)"

definition e_keeps :: "mda \<Rightarrow> mda \<Rightarrow> bool" where
  "e_keeps st st' =
     (e_frame st st' \<and> lower_bounds st' = lower_bounds st
      \<and> length (responsibilities st') = length (responsibilities st))"

text \<open>The density primitive returns, for every component, one value per row of the data.\<close>

definition pdf_ok :: "pdf_fn \<Rightarrow> mda \<Rightarrow> bool" where
  "pdf_ok pdf st =
     (\<forall>i<self_k st. \<forall>j<clusters st ! i.
        \<exists>d. pdf (self_X st) (col (mu st ! i) j) (covar st) = Inr d \<and> length d = self_n st)"

definition row_sum :: "pdf_fn \<Rightarrow> mda \<Rightarrow> nat \<Rightarrow> nat \<Rightarrow> npfloat" where
  "row_sum pdf st i t = fsum (map (\<lambda>j. unnorm pdf st i j ! t) [0..<clusters st ! i])"

text \<open>
  The clamp into an interval as the documentation words it: a value between the bounds is
  kept, a value above the upper bound becomes the upper bound, a value below the lower
  bound becomes the lower bound. The infinities are above, respectively below, every
  bound; NaN compares with nothing and stays.
\<close>

definition interval_clamp :: "real \<Rightarrow> real \<Rightarrow> npfloat \<Rightarrow> npfloat" where
  "interval_clamp lo hi x =
     (case x of
        Fin r \<Rightarrow> Fin (if hi < r then hi else if r < lo then lo else r)
      | PInf \<Rightarrow> Fin hi
      | NInf \<Rightarrow> Fin lo
      | NaN \<Rightarrow> NaN)"






text \<open>The M-step's update of one component, and the scatter matrix it adds.\<close>

definition m_update :: "matrix \<Rightarrow> mda \<Rightarrow> nat \<Rightarrow> nat \<Rightarrow> mda" where
  "m_update G st i j =
     st\<lparr>latent_var_prior :=
          (latent_var_prior st)
            [i := (latent_var_prior st ! i)[j := fdiv (mass st i j) (freq st ! i)]],
        mu := (mu st)[i := set_col (mu st ! i) j (weighted_mean G st i j)]\<rparr>"

definition m_scatter :: "matrix \<Rightarrow> mda \<Rightarrow> nat \<times> nat \<Rightarrow> matrix" where
  "m_scatter G st p = scatter st (fst p) (snd p) (weighted_mean G st (fst p) (snd p))"
section \<open>A small fitted model\<close>

text \<open>
  Three observations of one feature in one class with two components, and a density
  that is high within distance 1 of the mean. The store is a fixed point of the M-step.
\<close>

definition demo_pdf :: pdf_fn where
  "demo_pdf X0 mean cv =
     Inr (map (\<lambda>x. if \<bar>the_fin (hd x) - the_fin (hd mean)\<bar> \<le> 1 then Fin (7 / 8) else Fin (1 / 8))
              X0)"

definition demo_store :: mda where
  "demo_store =
     \<lparr>self_Y = [[Fin 1], [Fin 1], [Fin 1]],
      self_X = [[Fin 0], [Fin 2], [Fin 4]],
      self_n = 3, self_m = 1, self_k = 1,
      clusters = [2],
      class_prior = [Fin 1],
      latent_var_prior = [[Fin (2 / 3), Fin (1 / 3)]],
      freq = [Fin 3],
      covar = [[Fin (2 / 3)]],
      mu = [[[Fin 1, Fin 4]]],
      responsibilities = [[[Fin 1, Fin 0], [Fin 1, Fin 0], [Fin 0, Fin 1]]],
      lower_bounds = [],
      kmeans_maxiter = 300, kmeans_retsarts = 2, max_iter = 1,
      kmeans_theshold = 1 / 10 ^ 5, mda_threshold = 1 / 10 ^ 20,
      verbose = True, accuracy = 1 / 4\<rparr>"

definition demo_kmeans :: kmeans_fn where
  "demo_kmeans args rows = Inr (map (\<lambda>x. if the_fin (hd x) \<le> 3 then 0 else 1) rows)"

text \<open>
  A model of one class with a single component, configured with \<^verbatim>\<open>accuracy = 0\<close>, and a
  density that has underflowed to zero beyond distance 1 of the mean.
\<close>

definition underflow_pdf :: pdf_fn where
  "underflow_pdf X0 mean cv =
     Inr (map (\<lambda>x. if \<bar>the_fin (hd x) - the_fin (hd mean)\<bar> \<le> 1 then Fin (7 / 8) else Fin 0) X0)"

definition collapsed_store :: mda where
  "collapsed_store =
     \<lparr>self_Y = [[Fin 1], [Fin 1], [Fin 1]],
      self_X = [[Fin 0], [Fin 2], [Fin 4]],
      self_n = 3, self_m = 1, self_k = 1,
      clusters = [1],
      class_prior = [Fin 1],
      latent_var_prior = [[Fin 1]],
      freq = [Fin 3],
      covar = [[Fin (8 / 3)]],
      mu = [[[Fin 2]]],
      responsibilities = [[[Fin 1], [Fin 1], [Fin 1]]],
      lower_bounds = [],
      kmeans_maxiter = 300, kmeans_retsarts = 2, max_iter = 300,
      kmeans_theshold = 1 / 10 ^ 5, mda_threshold = 1 / 10 ^ 20,
      verbose = True, accuracy = 0\<rparr>"

text \<open>
  Two identical observations in one class with two components: the clustering put both
  into the first, the second component is empty.
\<close>

definition degenerate_store :: mda where
  "degenerate_store =
     \<lparr>self_Y = [[Fin 1], [Fin 1]],
      self_X = [[Fin 1], [Fin 1]],
      self_n = 2, self_m = 1, self_k = 1,
      clusters = [2],
      class_prior = [Fin 1],
      latent_var_prior = [[Fin (1 / 2), Fin (1 / 2)]],
      freq = [Fin 2],
      covar = [[Fin 1]],
      mu = [[[Fin 0, Fin 0]]],
      responsibilities = [[[Fin 1, Fin 0], [Fin 1, Fin 0]]],
      lower_bounds = [],
      kmeans_maxiter = 300, kmeans_retsarts = 2, max_iter = 300,
      kmeans_theshold = 1 / 10 ^ 5, mda_threshold = 1 / 10 ^ 20,
      verbose = True, accuracy = 1 / 10 ^ 5\<rparr>"
section \<open>Arithmetic and loop facts\<close>

lemma fadd_zero_left: "fadd (Fin 0) x = x"
  by (cases x) simp_all

lemma fadd_zero_right: "fadd x (Fin 0) = x"
  by (cases x) simp_all

lemma fadd_commute: "fadd x y = fadd y x"
  by (cases x; cases y) simp_all

lemma fadd_assoc: "fadd (fadd x y) z = fadd x (fadd y z)"
  by (cases x; cases y; cases z) simp_all

lemma fmul_one_right: "fmul x (Fin 1) = x"
  by (cases x) (simp_all add: inf_of_sign_def)

lemma fsum_Nil: "fsum [] = Fin 0"
  by (simp add: fsum_def)

lemma fsum_Cons: "fsum (x # xs) = fadd x (fsum xs)"
  by (simp add: fsum_def)

lemma fsum_map_Fin: "fsum (map Fin xs) = Fin (sum_list xs)"
  by (induction xs) (simp_all add: fsum_Nil fsum_Cons)

lemma foldl_fadd_fsum: "foldl fadd a xs = fadd a (fsum xs)"
  by (induction xs arbitrary: a) (simp_all add: fsum_Nil fsum_Cons fadd_zero_right fadd_assoc)

lemma for_loop_append:
  "for_loop f (xs @ ys) s = (case for_loop f xs s of Inl e \<Rightarrow> Inl e | Inr s' \<Rightarrow> for_loop f ys s')"
  by (induction xs arbitrary: s) (simp_all split: sum.splits)

lemma for_loop_invariant:
  assumes "for_loop f xs s = Inr s'" and "P s"
    and "\<And>x a b. x \<in> set xs \<Longrightarrow> P a \<Longrightarrow> f x a = Inr b \<Longrightarrow> P b"
  shows "P s'"
  using assms
proof (induction xs arbitrary: s)
  case Nil
  then show ?case by simp
next
  case (Cons x xs)
  from Cons.prems(1) obtain s1 where s1: "f x s = Inr s1" and rest: "for_loop f xs s1 = Inr s'"
    by (auto split: sum.splits)
  have "P s1" using Cons.prems(2,3) s1 by auto
  then show ?case using Cons.IH[OF rest] Cons.prems(3) by auto
qed

lemma bound1_cases:
  assumes "lo \<le> hi" and "x \<noteq> NaN"
  shows "fle (Fin lo) (bound1 (Fin lo) (Fin hi) x) \<and> fle (bound1 (Fin lo) (Fin hi) x) (Fin hi)
       \<and> (fgt x (Fin hi) \<longrightarrow> bound1 (Fin lo) (Fin hi) x = Fin hi)
       \<and> (flt x (Fin lo) \<longrightarrow> bound1 (Fin lo) (Fin hi) x = Fin lo)
       \<and> (fle (Fin lo) x \<and> fle x (Fin hi) \<longrightarrow> bound1 (Fin lo) (Fin hi) x = x)"
  using assms by (cases x) (auto simp: bound1_def fle_def fgt_def Let_def)
section \<open>The inner loops of the E-step and of inference\<close>

lemma length_set_col: "length v = length A \<Longrightarrow> length (set_col A j v) = length A"
  by (simp add: set_col_def)

lemma nth_set_col:
  "length v = length A \<Longrightarrow> t < length A \<Longrightarrow> set_col A j v ! t = (A ! t)[j := v ! t]"
  by (simp add: set_col_def)

lemma e_step_component_Inr:
  assumes "e_step_component pdf st c j (R, lb) = Inr (R', lb')"
  shows "length (unnorm pdf st c j) = length R \<and> R' = set_col R j (unnorm pdf st c j)"
  using assms
  by (auto simp: e_step_component_def unnorm_def clipped_def Let_def vscale_def
      bounded_variable_def split: sum.splits if_splits)

lemma e_inner:
  assumes "for_loop (e_step_component pdf st c) js (R, lb) = Inr (R', lb')"
  shows "length R' = length R
       \<and> (\<forall>j\<in>set js. length (unnorm pdf st c j) = length R)
       \<and> (\<forall>t<length R. length (R' ! t) = length (R ! t)
            \<and> (\<forall>j<length (R ! t). R' ! t ! j =
                  (if j \<in> set js then unnorm pdf st c j ! t else R ! t ! j)))"
  using assms
proof (induction js arbitrary: R lb)
  case Nil
  then show ?case by simp
next
  case (Cons j js)
  from Cons.prems obtain R1 lb1 where
    step: "e_step_component pdf st c j (R, lb) = Inr (R1, lb1)" and
    rest: "for_loop (e_step_component pdf st c) js (R1, lb1) = Inr (R', lb')"
    by (auto split: sum.splits)
  from e_step_component_Inr[OF step] have
    len: "length (unnorm pdf st c j) = length R" and R1: "R1 = set_col R j (unnorm pdf st c j)"
    by auto
  have lenR1: "length R1 = length R" using len R1 by (simp add: length_set_col)
  note ih = Cons.IH[OF rest]
  show ?case
  proof (intro conjI ballI allI impI)
    show "length R' = length R" using ih lenR1 by simp
  next
    fix j' assume "j' \<in> set (j # js)"
    then show "length (unnorm pdf st c j') = length R" using ih len lenR1 by auto
  next
    fix t assume t: "t < length R"
    show "length (R' ! t) = length (R ! t)"
      using ih t lenR1 R1 len by (simp add: nth_set_col)
  next
    fix t j' assume t: "t < length R" and j': "j' < length (R ! t)"
    have r1t: "R1 ! t = (R ! t)[j := unnorm pdf st c j ! t]"
      using R1 len t by (simp add: nth_set_col)
    have "R' ! t ! j' = (if j' \<in> set js then unnorm pdf st c j' ! t else R1 ! t ! j')"
      using ih t lenR1 j' r1t by simp
    then show "R' ! t ! j' = (if j' \<in> set (j # js) then unnorm pdf st c j' ! t else R ! t ! j')"
      using r1t j' by (auto simp: nth_list_update)
  qed
qed

lemma posterior_component_eq:
  "posterior_component pdf st c j cp =
     (case pdf (self_X st) (col (mu st ! c) j) (covar st) of
        Inl e \<Rightarrow> Inl e
      | Inr d \<Rightarrow> if length d \<noteq> length cp then Inl ValueError
                 else Inr (vadd cp (unnorm pdf st c j)))"
  by (auto simp: posterior_component_def unnorm_def clipped_def Let_def split: sum.splits)

lemma e_step_component_ok:
  assumes "e_step_component pdf st c j (R, lb) = Inr (R', lb')" and "length cp = length R"
  shows "posterior_component pdf st c j cp = Inr (vadd cp (unnorm pdf st c j))"
  using assms
  by (auto simp: posterior_component_eq e_step_component_def Let_def split: sum.splits if_splits)

lemma length_vadd: "length (vadd xs ys) = min (length xs) (length ys)"
  by (simp add: vadd_def)

lemma p_inner:
  assumes "for_loop (e_step_component pdf st c) js (R, lb) = Inr (R', lb')"
    and "length cp = length R"
  shows "for_loop (posterior_component pdf st c) js cp =
           Inr (foldl vadd cp (map (unnorm pdf st c) js))"
  using assms
proof (induction js arbitrary: R lb cp)
  case Nil
  then show ?case by simp
next
  case (Cons j js)
  from Cons.prems obtain R1 lb1 where
    step: "e_step_component pdf st c j (R, lb) = Inr (R1, lb1)" and
    rest: "for_loop (e_step_component pdf st c) js (R1, lb1) = Inr (R', lb')"
    by (auto split: sum.splits)
  from e_step_component_Inr[OF step] have
    len: "length (unnorm pdf st c j) = length R" and R1: "R1 = set_col R j (unnorm pdf st c j)"
    by auto
  have lenR1: "length R1 = length R" using len R1 by (simp add: length_set_col)
  have l2: "length (vadd cp (unnorm pdf st c j)) = length R1"
    using len lenR1 Cons.prems(2) by (simp add: length_vadd)
  show ?case
    using e_step_component_ok[OF step Cons.prems(2)] Cons.IH[OF rest l2] by simp
qed

lemma nth_foldl_vadd:
  assumes "\<forall>u\<in>set us. length u = length cp" and "t < length cp"
  shows "length (foldl vadd cp us) = length cp
       \<and> foldl vadd cp us ! t = foldl fadd (cp ! t) (map (\<lambda>u. u ! t) us)"
  using assms
proof (induction us arbitrary: cp)
  case Nil
  then show ?case by simp
next
  case (Cons u us)
  have l: "length (vadd cp u) = length cp" using Cons.prems by (simp add: length_vadd)
  have n: "vadd cp u ! t = fadd (cp ! t) (u ! t)" using Cons.prems by (simp add: vadd_def)
  have "\<forall>u'\<in>set us. length u' = length (vadd cp u)" using Cons.prems l by simp
  from Cons.IH[OF this] Cons.prems(2) l n show ?case by simp
qed

lemma e_inner_pdf:
  assumes "for_loop (e_step_component pdf st c) js (R, lb) = Inr (R', lb')" and "j \<in> set js"
  shows "\<exists>d. pdf (self_X st) (col (mu st ! c) j) (covar st) = Inr d \<and> length d = length R"
  using assms
proof (induction js arbitrary: R lb)
  case Nil
  then show ?case by simp
next
  case (Cons j' js)
  from Cons.prems obtain R1 lb1 where
    step: "e_step_component pdf st c j' (R, lb) = Inr (R1, lb1)" and
    rest: "for_loop (e_step_component pdf st c) js (R1, lb1) = Inr (R', lb')"
    by (auto split: sum.splits)
  from e_step_component_Inr[OF step] have lenR1: "length R1 = length R"
    by (simp add: length_set_col)
  have here: "\<exists>d. pdf (self_X st) (col (mu st ! c) j') (covar st) = Inr d \<and> length d = length R"
    using step by (auto simp: e_step_component_def split: sum.splits if_splits)
  show ?case
  proof (cases "j = j'")
    case True
    then show ?thesis using here by simp
  next
    case False
    then have "j \<in> set js" using Cons.prems(2) by simp
    from Cons.IH[OF rest this] lenR1 show ?thesis by simp
  qed
qed

lemma unnorm_Inr:
  "pdf (self_X st) (col (mu st ! c) j) (covar st) = Inr d \<Longrightarrow>
   unnorm pdf st c j =
     vscale (bounded_variable d (Fin (accuracy st)) (Fin (1 - accuracy st)))
            (latent_var_prior st ! c ! j)"
  by (simp add: unnorm_def clipped_def)

lemma e_inner_rows:
  assumes loop: "for_loop (e_step_component pdf st c) [0..<cc] (R, lb) = Inr (R', lb')"
    and shape: "has_shape n cc R" and t: "t < n"
  shows "R' ! t = map (\<lambda>j. unnorm pdf st c j ! t) [0..<cc]"
proof (rule nth_equalityI)
  have lt: "t < length R" and lr: "length (R ! t) = cc"
    using shape t by (auto simp: has_shape_def)
  from e_inner[OF loop] lt lr show "length (R' ! t) = length (map (\<lambda>j. unnorm pdf st c j ! t) [0..<cc])"
    by simp
  fix j assume "j < length (R' ! t)"
  then have j: "j < cc" using e_inner[OF loop] lt lr by simp
  then show "R' ! t ! j = map (\<lambda>j. unnorm pdf st c j ! t) [0..<cc] ! j"
    using e_inner[OF loop] lt lr by simp
qed

lemma e_inner_col:
  assumes loop: "for_loop (e_step_component pdf st c) [0..<cc] (R, lb) = Inr (R', lb')"
    and shape: "has_shape n cc R" and j: "j < cc"
  shows "col R' j = unnorm pdf st c j"
proof (rule nth_equalityI)
  have lenR: "length R = n" using shape by (simp add: has_shape_def)
  have lu: "length (unnorm pdf st c j) = n" using e_inner[OF loop] j lenR by simp
  have lR': "length R' = n" using e_inner[OF loop] lenR by simp
  show "length (col R' j) = length (unnorm pdf st c j)" using lu lR' by (simp add: col_def)
  fix t assume "t < length (col R' j)"
  then have t: "t < n" using lR' by (simp add: col_def)
  show "col R' j ! t = unnorm pdf st c j ! t"
    using e_inner_rows[OF loop shape t] t lR' j by (simp add: col_def)
qed

lemma length_foldl_vadd:
  "\<forall>u\<in>set us. length u = length cp \<Longrightarrow> length (foldl vadd cp us) = length cp"
proof (induction us arbitrary: cp)
  case Nil
  then show ?case by simp
next
  case (Cons u us)
  have l: "length (vadd cp u) = length cp" using Cons.prems by (simp add: length_vadd)
  have "\<forall>u'\<in>set us. length u' = length (vadd cp u)" using Cons.prems l by simp
  from Cons.IH[OF this] l show ?case by simp
qed

lemma inference_matches_normaliser:
  assumes loop: "for_loop (e_step_component pdf st c) [0..<cc] (R, lb) = Inr (R', lb')"
    and shape: "has_shape n cc R"
  shows "for_loop (posterior_component pdf st c) [0..<cc] (zeros n) = Inr (sum_axis1 R')"
proof -
  let ?us = "map (unnorm pdf st c) [0..<cc]"
  have lenR: "length R = n" using shape by (simp add: has_shape_def)
  have lz: "length (zeros n) = length R" using lenR by (simp add: zeros_def)
  have lu: "\<forall>u\<in>set ?us. length u = length (zeros n)"
    using e_inner[OF loop] lz by auto
  have lR': "length R' = n" using e_inner[OF loop] lenR by simp
  have lf: "length (foldl vadd (zeros n) ?us) = n"
    using length_foldl_vadd[OF lu] by (simp add: zeros_def)
  have "foldl vadd (zeros n) ?us = sum_axis1 R'"
  proof (rule nth_equalityI)
    show "length (foldl vadd (zeros n) ?us) = length (sum_axis1 R')"
      using lf lR' by (simp add: sum_axis1_def)
    fix t assume "t < length (foldl vadd (zeros n) ?us)"
    then have t: "t < n" using lf by simp
    then have tz: "t < length (zeros n)" by (simp add: zeros_def)
    have "foldl vadd (zeros n) ?us ! t = foldl fadd (Fin 0) (map (\<lambda>u. u ! t) ?us)"
      using nth_foldl_vadd[OF lu tz] t by (simp add: zeros_def)
    also have "\<dots> = fsum (map (\<lambda>j. unnorm pdf st c j ! t) [0..<cc])"
      by (simp add: foldl_fadd_fsum fadd_zero_left comp_def)
    also have "\<dots> = sum_axis1 R' ! t"
      using e_inner_rows[OF loop shape t] t lR' by (simp add: sum_axis1_def)
    finally show "foldl vadd (zeros n) ?us ! t = sum_axis1 R' ! t" .
  qed
  then show ?thesis using p_inner[OF loop lz] by simp
qed
section \<open>Density clipping\<close>

lemma upt2: "[0..<2] = [0, 1]" by (simp add: upt_rec)
lemma upt3: "[0..<3] = [0, 1, 2]" by (simp add: upt_rec)


lemma demo_loop: "\<exists>R' lb'. for_loop (e_step_component demo_pdf demo_store 0) [0..<clusters demo_store ! 0]
     (responsibilities demo_store ! 0, Fin 0) = Inr (R', lb')"
  by (simp add: demo_store_def demo_pdf_def upt2 e_step_component_def Let_def col_def
      bounded_variable_def bound1_def fgt_def vmul_def vadd_def vscale_def set_col_def fsum_def)


lemma bound1_interval_clamp:
  assumes "lo \<le> hi"
  shows "bound1 (Fin lo) (Fin hi) x = interval_clamp lo hi x"
  using assms by (cases x) (auto simp: bound1_def interval_clamp_def fgt_def Let_def)

lemma bounded_variable_interval_clamp:
  assumes "lo \<le> hi"
  shows "bounded_variable d (Fin lo) (Fin hi) = map (interval_clamp lo hi) d"
  unfolding bounded_variable_def using bound1_interval_clamp[OF assms] by simp

text \<open>
  Claim C6, as stated, fails: nothing restricts \<^verbatim>\<open>accuracy\<close>, and above one half the
  lower bound exceeds the upper one. With \<^verbatim>\<open>accuracy = 3/4\<close> the density \<open>1/2\<close> exceeds the
  upper bound \<open>1/4\<close>, yet the clamp returns the lower bound \<open>3/4\<close>, which is above the
  upper one.
\<close>

theorem bounded_variable_inverted_bounds:
  "bounded_variable [Fin (1 / 2)] (Fin (3 / 4)) (Fin (1 - 3 / 4)) = [Fin (3 / 4)]
   \<and> fgt (Fin (1 / 2)) (Fin (1 - 3 / 4))
   \<and> \<not> fle (Fin (3 / 4)) (Fin (1 - 3 / 4))"
  by (simp add: bounded_variable_def bound1_def fgt_def fle_def Let_def)

text \<open>
  Claim C6, amended. For an accuracy of at most one half, the E-step and inference use
  every density only after the clamp into \<open>[accuracy, 1 - accuracy]\<close>: a value between the
  bounds is kept, a larger one (also \<open>+inf\<close>) becomes the upper bound, a smaller one (also
  \<open>-inf\<close>) the lower bound, and NaN stays NaN. The column the E-step writes into the
  responsibilities before it normalises is the clamped density times the mixing weight,
  the logarithm in the lower bound is taken of the clamped density, and inference adds the
  same clamped density times the same mixing weight; the class densities inference
  accumulates are the row sums by which the E-step normalises.
\<close>

theorem densities_clamped_before_use:
  assumes acc: "accuracy st \<le> 1 / 2"
    and loop: "for_loop (e_step_component pdf st c) [0..<clusters st ! c]
                 (responsibilities st ! c, lb) = Inr (R', lb')"
    and shape: "has_shape (self_n st) (clusters st ! c) (responsibilities st ! c)"
  shows "(\<forall>j<clusters st ! c.
            \<exists>d. pdf (self_X st) (col (mu st ! c) j) (covar st) = Inr d
              \<and> col R' j =
                  map (\<lambda>x. fmul (interval_clamp (accuracy st) (1 - accuracy st) x)
                                 (latent_var_prior st ! c ! j)) d
              \<and> (\<forall>R lb0. length R = length d \<longrightarrow>
                    e_step_component pdf st c j (R, lb0) =
                      Inr (set_col R j
                             (map (\<lambda>x. fmul (interval_clamp (accuracy st) (1 - accuracy st) x)
                                            (latent_var_prior st ! c ! j)) d),
                           fadd lb0
                             (fsum (vadd
                                (vmul (vmul (col (self_Y st) c) (col R j))
                                   (map (\<lambda>x. flog (interval_clamp (accuracy st) (1 - accuracy st) x)) d))
                                (vscale (vmul (col (self_Y st) c) (col R j))
                                   (flog (latent_var_prior st ! c ! j)))))))
              \<and> (\<forall>cp. length cp = length d \<longrightarrow>
                    posterior_component pdf st c j cp =
                      Inr (vadd cp
                             (map (\<lambda>x. fmul (interval_clamp (accuracy st) (1 - accuracy st) x)
                                            (latent_var_prior st ! c ! j)) d))))
       \<and> for_loop (posterior_component pdf st c) [0..<clusters st ! c] (zeros (self_n st))
           = Inr (sum_axis1 R')"
proof (intro conjI allI impI)
  fix j assume j: "j < clusters st ! c"
  then have "j \<in> set [0..<clusters st ! c]" by simp
  from e_inner_pdf[OF loop this] obtain d where
    d: "pdf (self_X st) (col (mu st ! c) j) (covar st) = Inr d" by blast
  have lohi: "accuracy st \<le> 1 - accuracy st" using acc by simp
  note bv = bounded_variable_interval_clamp[OF lohi, of d]
  have written: "col R' j =
      map (\<lambda>x. fmul (interval_clamp (accuracy st) (1 - accuracy st) x)
                     (latent_var_prior st ! c ! j)) d"
    using e_inner_col[OF loop shape j] unnorm_Inr[of pdf st c j d, OF d]
    by (simp add: bv vscale_def comp_def)
  have estep: "\<forall>R lb0. length R = length d \<longrightarrow>
                    e_step_component pdf st c j (R, lb0) =
                      Inr (set_col R j
                             (map (\<lambda>x. fmul (interval_clamp (accuracy st) (1 - accuracy st) x)
                                            (latent_var_prior st ! c ! j)) d),
                           fadd lb0
                             (fsum (vadd
                                (vmul (vmul (col (self_Y st) c) (col R j))
                                   (map (\<lambda>x. flog (interval_clamp (accuracy st) (1 - accuracy st) x)) d))
                                (vscale (vmul (col (self_Y st) c) (col R j))
                                   (flog (latent_var_prior st ! c ! j))))))"
    by (simp add: e_step_component_def d bv Let_def vscale_def comp_def)
  have post: "\<forall>cp. length cp = length d \<longrightarrow>
                    posterior_component pdf st c j cp =
                      Inr (vadd cp
                             (map (\<lambda>x. fmul (interval_clamp (accuracy st) (1 - accuracy st) x)
                                            (latent_var_prior st ! c ! j)) d))"
    by (simp add: posterior_component_def d bv Let_def vscale_def comp_def)
  from d written estep post
  show "\<exists>d. pdf (self_X st) (col (mu st ! c) j) (covar st) = Inr d
              \<and> col R' j =
                  map (\<lambda>x. fmul (interval_clamp (accuracy st) (1 - accuracy st) x)
                                 (latent_var_prior st ! c ! j)) d
              \<and> (\<forall>R lb0. length R = length d \<longrightarrow>
                    e_step_component pdf st c j (R, lb0) =
                      Inr (set_col R j
                             (map (\<lambda>x. fmul (interval_clamp (accuracy st) (1 - accuracy st) x)
                                            (latent_var_prior st ! c ! j)) d),
                           fadd lb0
                             (fsum (vadd
                                (vmul (vmul (col (self_Y st) c) (col R j))
                                   (map (\<lambda>x. flog (interval_clamp (accuracy st) (1 - accuracy st) x)) d))
                                (vscale (vmul (col (self_Y st) c) (col R j))
                                   (flog (latent_var_prior st ! c ! j)))))))
              \<and> (\<forall>cp. length cp = length d \<longrightarrow>
                    posterior_component pdf st c j cp =
                      Inr (vadd cp
                             (map (\<lambda>x. fmul (interval_clamp (accuracy st) (1 - accuracy st) x)
                                            (latent_var_prior st ! c ! j)) d)))"
    by blast
next
  show "for_loop (posterior_component pdf st c) [0..<clusters st ! c] (zeros (self_n st))
           = Inr (sum_axis1 R')"
    using inference_matches_normaliser[OF loop shape] .
qed

lemma demo_shape: "has_shape (self_n demo_store) (clusters demo_store ! 0) (responsibilities demo_store ! 0)"
  by (simp add: demo_store_def has_shape_def)

lemma demo_density:
  "pdf0 = Inr d0 \<Longrightarrow> pdf0 = Inr [Fin (7 / 8), Fin (7 / 8), Fin (1 / 8)] \<Longrightarrow>
   map (\<lambda>x. fmul (interval_clamp (1 / 4) (1 - 1 / 4) x) (Fin (2 / 3))) d0
     = [Fin (1 / 2), Fin (1 / 2), Fin (1 / 6)]"
  by (auto simp: interval_clamp_def)

theorem densities_clamped_witness:
  "accuracy demo_store \<le> 1 / 2
   \<and> has_shape (self_n demo_store) (clusters demo_store ! 0) (responsibilities demo_store ! 0)
   \<and> (\<exists>R' lb'. for_loop (e_step_component demo_pdf demo_store 0) [0..<clusters demo_store ! 0]
                    (responsibilities demo_store ! 0, Fin 0) = Inr (R', lb')
                \<and> col R' 0 = [Fin (1 / 2), Fin (1 / 2), Fin (1 / 6)]
                \<and> for_loop (posterior_component demo_pdf demo_store 0)
                     [0..<clusters demo_store ! 0] (zeros (self_n demo_store))
                   = Inr (sum_axis1 R'))"
proof -
  have acc: "accuracy demo_store \<le> 1 / 2" by (simp add: demo_store_def)
  from demo_loop obtain R' lb' where
    loop: "for_loop (e_step_component demo_pdf demo_store 0) [0..<clusters demo_store ! 0]
             (responsibilities demo_store ! 0, Fin 0) = Inr (R', lb')" by blast
  note main = densities_clamped_before_use[OF acc loop demo_shape]
  have j: "0 < clusters demo_store ! 0" by (simp add: demo_store_def)
  from main[THEN conjunct1, rule_format, OF j] obtain d where
    d: "demo_pdf (self_X demo_store) (col (mu demo_store ! 0) 0) (covar demo_store) = Inr d"
    and w: "col R' 0 = map (\<lambda>x. fmul (interval_clamp (accuracy demo_store) (1 - accuracy demo_store) x)
                                 (latent_var_prior demo_store ! 0 ! 0)) d"
    by blast
  have dv: "demo_pdf (self_X demo_store) (col (mu demo_store ! 0) 0) (covar demo_store)
              = Inr [Fin (7 / 8), Fin (7 / 8), Fin (1 / 8)]"
    by (simp add: demo_pdf_def demo_store_def col_def)
  have "col R' 0 = [Fin (1 / 2), Fin (1 / 2), Fin (1 / 6)]"
    using demo_density[OF d dv] w by (simp add: demo_store_def)
  with main[THEN conjunct2] acc demo_shape loop show ?thesis by blast
qed

section \<open>What the two steps leave unchanged\<close>

lemma m_frame_refl: "m_frame st st"
  by (simp add: m_frame_def same_data_def)

lemma m_frame_trans: "m_frame a b \<Longrightarrow> m_frame b c \<Longrightarrow> m_frame a c"
  by (simp add: m_frame_def same_data_def)

lemma e_frame_refl: "e_frame st st"
  by (simp add: e_frame_def same_data_def)

lemma e_frame_trans: "e_frame a b \<Longrightarrow> e_frame b c \<Longrightarrow> e_frame a c"
  by (simp add: e_frame_def same_data_def)

lemma for_loop_fst_invariant:
  assumes loop: "for_loop f xs (s, c) = Inr (s', c')"
    and refl: "R s s"
    and trans: "\<And>a b d. R a b \<Longrightarrow> R b d \<Longrightarrow> R a d"
    and step: "\<And>x a ca b cb. x \<in> set xs \<Longrightarrow> f x (a, ca) = Inr (b, cb) \<Longrightarrow> R a b"
  shows "R s s'"
proof -
  have "R s (fst (s', c'))"
  proof (rule for_loop_invariant[OF loop, where P = "\<lambda>p. R s (fst p)"])
    show "R s (fst (s, c))" using refl by simp
  next
    fix x a b
    assume x: "x \<in> set xs" and a: "R s (fst a)" and fx: "f x a = Inr b"
    obtain a1 a2 where [simp]: "a = (a1, a2)" by (cases a)
    obtain b1 b2 where [simp]: "b = (b1, b2)" by (cases b)
    from step[OF x, of a1 a2 b1 b2] fx have "R a1 b1" by simp
    with a trans show "R s (fst b)" by auto
  qed
  then show ?thesis by simp
qed

lemma m_step_component_frame:
  assumes "m_step_component gX i j (st, cv) = Inr (st', cv')"
  shows "m_frame st st' \<and> covar st' = covar st"
proof (cases gX)
  case None
  then show ?thesis using assms by (simp add: m_step_component_def Let_def)
next
  case (Some G)
  show ?thesis
    using assms unfolding m_step_component_def Let_def Some
    by (simp add: m_frame_def same_data_def split: if_splits sum.splits) auto
qed

lemma m_inner_frame:
  assumes "for_loop (m_step_component gX i) js (st, cv) = Inr (st', cv')"
  shows "m_frame st st'"
  by (rule for_loop_fst_invariant[OF assms, where R = m_frame])
     (auto intro: m_frame_refl m_frame_trans dest: m_step_component_frame)

lemma m_outer_frame:
  assumes "for_loop (m_step_class gX) is (st, cv) = Inr (st', cv')"
  shows "m_frame st st'"
proof (rule for_loop_fst_invariant[OF assms, where R = m_frame])
  show "m_frame st st" by (rule m_frame_refl)
next
  fix a b d assume "m_frame a b" "m_frame b d"
  then show "m_frame a d" by (rule m_frame_trans)
next
  fix x a ca b cb
  assume "m_step_class gX x (a, ca) = Inr (b, cb)"
  then have "for_loop (m_step_component gX x) [0..<clusters a ! x] (a, ca) = Inr (b, cb)"
    by (simp add: m_step_class_def)
  then show "m_frame a b" by (rule m_inner_frame)
qed

lemma m_step_frame:
  assumes "m_step gX st = Inr st'"
  shows "m_frame st st'"
proof -
  from assms obtain s cv where
    loop: "for_loop (m_step_class gX) [0..<self_k st] (st, zeros2 (self_m st) (self_m st)) = Inr (s, cv)"
    and st': "st' = s\<lparr>covar := mdivs cv (Fin (real (self_n s)))\<rparr>"
    by (auto simp: m_step_def split: sum.splits prod.splits)
  from m_outer_frame[OF loop] show ?thesis
    unfolding st' by (simp add: m_frame_def same_data_def)
qed

lemma e_step_class_frame:
  assumes "e_step_class pdf i (st, lb) = Inr (st', lb')"
  shows "e_frame st st' \<and> lower_bounds st' = lower_bounds st
       \<and> length (responsibilities st') = length (responsibilities st)"
  using assms
  by (auto simp: e_step_class_def e_frame_def same_data_def split: sum.splits prod.splits)

lemma e_classes_frame:
  assumes "for_loop (e_step_class pdf) is (st, lb) = Inr (st', lb')"
  shows "e_keeps st st'"
proof (rule for_loop_fst_invariant[OF assms, where R = e_keeps])
  show "e_keeps st st" by (simp add: e_keeps_def e_frame_refl)
next
  fix a b d assume "e_keeps a b" "e_keeps b d"
  then show "e_keeps a d" by (auto simp: e_keeps_def intro: e_frame_trans)
next
  fix x a ca b cb
  assume "e_step_class pdf x (a, ca) = Inr (b, cb)"
  from e_step_class_frame[OF this] show "e_keeps a b" by (simp add: e_keeps_def)
qed

lemma e_step_frame:
  assumes "e_step_lower_bound_likelihood pdf st = Inr st'"
  shows "e_frame st st' \<and> (\<exists>lb. lower_bounds st' = lower_bounds st @ [lb])"
proof -
  from assms obtain s lb where
    loop: "for_loop (e_step_class pdf) [0..<length (responsibilities st)] (st, Fin 0) = Inr (s, lb)"
    and st': "st' = s\<lparr>lower_bounds := lower_bounds s @ [lb]\<rparr>"
    by (auto simp: e_step_lower_bound_likelihood_def split: sum.splits prod.splits)
  from e_classes_frame[OF loop] show ?thesis
    unfolding st' by (simp add: e_keeps_def e_frame_def same_data_def)
qed
section \<open>The EM loop\<close>

lemma upt1: "[0..<1] = [0]" by (simp add: upt_rec)

lemmas eval_defs = e_step_lower_bound_likelihood_def e_step_class_def e_step_component_def
  normalise_rows_def m_step_def m_step_class_def m_step_component_def assign_col_def
  demo_pdf_def bounded_variable_def bound1_def fgt_def vmul_def vadd_def vscale_def vdivs_def
  set_col_def fsum_def col_def ncols_def mtranspose_def dot_def diagflat_def outer_def ones_def
  zeros_def zeros2_def sum_axis1_def madd_def msub_def mdiv_def mdivs_def fsub_def Let_def
  upt1 upt2 upt3

lemma new_delta_ext:
  "length lbs1 < length lbs2 \<Longrightarrow> new_delta (new_delta d lbs1) lbs2 = new_delta d lbs2"
  by (auto simp: new_delta_def)

lemma same_data_refl: "same_data st st"
  by (simp add: same_data_def)

lemma same_data_trans: "same_data a b \<Longrightarrow> same_data b c \<Longrightarrow> same_data a c"
  by (simp add: same_data_def)

lemma iterate_from_spec:
  assumes "iterate_from pdf gX r d st = Inr (ex, st')"
  shows "same_data st st'
       \<and> (\<exists>its. length (lower_bounds st') = length (lower_bounds st) + its \<and> its \<le> r
            \<and> (ex = MaxIterReached \<longrightarrow>
                  its = r \<and> (0 < r \<longrightarrow> fgt (new_delta d (lower_bounds st')) (Fin (mda_threshold st))))
            \<and> (ex = Converged \<longrightarrow>
                  0 < its \<and> \<not> fgt (new_delta d (lower_bounds st')) (Fin (mda_threshold st))))"
  using assms
proof (induction r arbitrary: d st)
  case 0
  then show ?case by (auto simp: same_data_refl)
next
  case (Suc r)
  from Suc.prems obtain s1 where e: "e_step_lower_bound_likelihood pdf st = Inr s1"
    by (auto split: sum.splits)
  from e_step_frame[OF e] obtain lb where
    sd1: "same_data st s1" and lbs1: "lower_bounds s1 = lower_bounds st @ [lb]"
    by (auto simp: e_frame_def)
  have thr1: "mda_threshold s1 = mda_threshold st" using sd1 by (simp add: same_data_def)
  let ?d = "new_delta d (lower_bounds s1)"
  show ?case
  proof (cases "fgt ?d (Fin (mda_threshold st))")
    case False
    with Suc.prems e thr1 have "ex = Converged" and "st' = s1" by (auto simp: Let_def)
    then show ?thesis using sd1 lbs1 False by auto
  next
    case True
    with Suc.prems e thr1 obtain s2 where m: "m_step gX s1 = Inr s2"
      and rest: "iterate_from pdf gX r ?d s2 = Inr (ex, st')"
      by (auto simp: Let_def split: sum.splits)
    from m_step_frame[OF m] have sd2: "same_data s1 s2" and lbs2: "lower_bounds s2 = lower_bounds s1"
      by (auto simp: m_frame_def)
    have thr2: "mda_threshold s2 = mda_threshold st" using sd2 thr1 by (simp add: same_data_def)
    from Suc.IH[OF rest] obtain its where
      sd: "same_data s2 st'" and
      len: "length (lower_bounds st') = length (lower_bounds s2) + its" and le: "its \<le> r" and
      mx: "ex = MaxIterReached \<longrightarrow>
             its = r \<and> (0 < r \<longrightarrow> fgt (new_delta ?d (lower_bounds st')) (Fin (mda_threshold st)))" and
      cv: "ex = Converged \<longrightarrow>
             0 < its \<and> \<not> fgt (new_delta ?d (lower_bounds st')) (Fin (mda_threshold st))"
      unfolding thr2 by blast
    have ext: "0 < its \<Longrightarrow> new_delta ?d (lower_bounds st') = new_delta d (lower_bounds st')"
      using len lbs2 by (intro new_delta_ext) simp
    have zero: "its = 0 \<Longrightarrow> lower_bounds st' = lower_bounds s1"
    proof -
      assume "its = 0"
      with rest le mx cv have "r = 0 \<or> ex = Converged" by (cases ex) auto
      with cv \<open>its = 0\<close> have "r = 0" by auto
      with rest have "st' = s2" by simp
      then show ?thesis using lbs2 by simp
    qed
    have A: "same_data st st'" using sd1 sd2 sd by (blast intro: same_data_trans)
    have B: "length (lower_bounds st') = length (lower_bounds st) + Suc its"
      using len lbs2 lbs1 by simp
    have C: "ex = MaxIterReached \<longrightarrow> Suc its = Suc r
                \<and> fgt (new_delta d (lower_bounds st')) (Fin (mda_threshold st))"
    proof (intro impI conjI)
      assume x: "ex = MaxIterReached"
      then show "Suc its = Suc r" using mx by simp
      show "fgt (new_delta d (lower_bounds st')) (Fin (mda_threshold st))"
      proof (cases "its = 0")
        case True
        then show ?thesis using zero \<open>fgt ?d (Fin (mda_threshold st))\<close> by simp
      next
        case False
        then show ?thesis using mx x ext by auto
      qed
    qed
    have D: "ex = Converged \<longrightarrow> \<not> fgt (new_delta d (lower_bounds st')) (Fin (mda_threshold st))"
      using cv ext by auto
    show ?thesis
      using A B C D le by (intro conjI exI[of _ "Suc its"]) auto
  qed
qed


lemma demo_iterate:
  "\<exists>ex st'. iterate demo_pdf (Some (self_X demo_store)) demo_store = Inr (ex, st')"
proof -
  have "iterate demo_pdf (Some (self_X demo_store)) demo_store =
        iterate_from demo_pdf (Some (self_X demo_store)) (Suc 0) (Fin 1) demo_store"
    by (simp add: iterate_def demo_store_def)
  also have "\<exists>ex st'. \<dots> = Inr (ex, st')"
    by (simp add: demo_store_def eval_defs new_delta_def)
  finally show ?thesis .
qed

text \<open>
  Claim C9. Every iteration of the loop runs the E-step first, and the E-step appends
  exactly one value to the history, which the M-step does not touch. With \<open>delta\<close> the
  relative change of the last two values once there are two (and the initial 1 before),
  the loop runs the M-step and goes on exactly when \<open>delta\<close> exceeds the threshold, and
  leaves as converged otherwise. A run therefore makes at most \<open>max_iter\<close> iterations:
  exactly \<open>max_iter\<close> when it exhausts the budget, each of them with \<open>delta\<close> above the
  threshold, and at least one when it converges, the last of them with \<open>delta\<close> not above
  it. The defaults are a threshold of \<open>1e-20\<close> and 300 iterations.
\<close>

theorem em_loop_control:
  assumes run: "iterate pdf gX st = Inr (ex, st')"
  shows "(\<exists>its. length (lower_bounds st') = length (lower_bounds st) + its
            \<and> its \<le> nat (max_iter st)
            \<and> (ex = MaxIterReached \<longrightarrow>
                  its = nat (max_iter st)
                  \<and> (0 < its \<longrightarrow>
                        fgt (new_delta (Fin 1) (lower_bounds st')) (Fin (mda_threshold st))))
            \<and> (ex = Converged \<longrightarrow>
                  0 < its
                  \<and> \<not> fgt (new_delta (Fin 1) (lower_bounds st')) (Fin (mda_threshold st))))
       \<and> (\<forall>r d s s1. e_step_lower_bound_likelihood pdf s = Inr s1 \<longrightarrow>
              (\<exists>lb. lower_bounds s1 = lower_bounds s @ [lb])
              \<and> (fgt (new_delta d (lower_bounds s1)) (Fin (mda_threshold s1)) \<longrightarrow>
                    iterate_from pdf gX (Suc r) d s =
                      (case m_step gX s1 of
                         Inl e \<Rightarrow> Inl e
                       | Inr s2 \<Rightarrow> iterate_from pdf gX r (new_delta d (lower_bounds s1)) s2))
              \<and> (\<not> fgt (new_delta d (lower_bounds s1)) (Fin (mda_threshold s1)) \<longrightarrow>
                    iterate_from pdf gX (Suc r) d s = Inr (Converged, s1)))
       \<and> (\<forall>s s2. m_step gX s = Inr s2 \<longrightarrow> lower_bounds s2 = lower_bounds s)
       \<and> (\<forall>d lbs a b. new_delta d (lbs @ [Fin a, Fin b]) =
              (if a = 0 then inf_of_sign (b - a) else Fin ((b - a) / \<bar>a\<bar>)))
       \<and> (\<forall>d. new_delta d [] = d) \<and> (\<forall>d b. new_delta d [b] = d)
       \<and> iterate pdf gX st = iterate_from pdf gX (nat (max_iter st)) (Fin 1) st
       \<and> max_iter (MDA_init gt X0 cl k0 default_config) = 300
       \<and> mda_threshold (MDA_init gt X0 cl k0 default_config) = 1 / 10 ^ 20"
proof (intro conjI)
  from run have "iterate_from pdf gX (nat (max_iter st)) (Fin 1) st = Inr (ex, st')"
    by (simp add: iterate_def)
  from iterate_from_spec[OF this]
  show "\<exists>its. length (lower_bounds st') = length (lower_bounds st) + its
            \<and> its \<le> nat (max_iter st)
            \<and> (ex = MaxIterReached \<longrightarrow>
                  its = nat (max_iter st)
                  \<and> (0 < its \<longrightarrow>
                        fgt (new_delta (Fin 1) (lower_bounds st')) (Fin (mda_threshold st))))
            \<and> (ex = Converged \<longrightarrow>
                  0 < its
                  \<and> \<not> fgt (new_delta (Fin 1) (lower_bounds st')) (Fin (mda_threshold st)))"
    by (elim conjE exE) (rule exI, auto)
next
  show "\<forall>r d s s1. e_step_lower_bound_likelihood pdf s = Inr s1 \<longrightarrow>
              (\<exists>lb. lower_bounds s1 = lower_bounds s @ [lb])
              \<and> (fgt (new_delta d (lower_bounds s1)) (Fin (mda_threshold s1)) \<longrightarrow>
                    iterate_from pdf gX (Suc r) d s =
                      (case m_step gX s1 of
                         Inl e \<Rightarrow> Inl e
                       | Inr s2 \<Rightarrow> iterate_from pdf gX r (new_delta d (lower_bounds s1)) s2))
              \<and> (\<not> fgt (new_delta d (lower_bounds s1)) (Fin (mda_threshold s1)) \<longrightarrow>
                    iterate_from pdf gX (Suc r) d s = Inr (Converged, s1))"
    using e_step_frame by (auto simp: Let_def)
next
  show "\<forall>s s2. m_step gX s = Inr s2 \<longrightarrow> lower_bounds s2 = lower_bounds s"
    using m_step_frame by (auto simp: m_frame_def)
next
  show "\<forall>d lbs a b. new_delta d (lbs @ [Fin a, Fin b]) =
              (if a = 0 then inf_of_sign (b - a) else Fin ((b - a) / \<bar>a\<bar>))"
    by (simp add: new_delta_def nth_append fsub_def)
next
  show "\<forall>d. new_delta d [] = d" by (simp add: new_delta_def)
next
  show "\<forall>d b. new_delta d [b] = d" by (simp add: new_delta_def)
next
  show "iterate pdf gX st = iterate_from pdf gX (nat (max_iter st)) (Fin 1) st"
    by (simp add: iterate_def)
next
  show "max_iter (MDA_init gt X0 cl k0 default_config) = 300"
    by (simp add: MDA_init_def default_config_def)
next
  show "mda_threshold (MDA_init gt X0 cl k0 default_config) = 1 / 10 ^ 20"
    by (simp add: MDA_init_def default_config_def)
qed

theorem em_loop_control_witness:
  "\<exists>ex st'. iterate demo_pdf (Some (self_X demo_store)) demo_store = Inr (ex, st')
     \<and> (\<exists>its. length (lower_bounds st') = length (lower_bounds demo_store) + its
           \<and> its \<le> nat (max_iter demo_store))"
proof -
  from demo_iterate obtain ex st' where
    run: "iterate demo_pdf (Some (self_X demo_store)) demo_store = Inr (ex, st')" by blast
  from em_loop_control[OF run, THEN conjunct1] run show ?thesis by blast
qed
section \<open>The class prior\<close>

lemma init_class_frame:
  assumes "init_class kmeans i st = Inr st'"
  shows "same_data st st'"
  using assms
  by (auto simp: init_class_def same_data_def split: sum.splits if_splits)

lemma init_classes_frame:
  assumes "for_loop (init_class kmeans) is st = Inr st'"
  shows "same_data st st'"
  by (rule for_loop_invariant[OF assms, where P = "same_data st"])
     (auto intro: same_data_refl same_data_trans dest: init_class_frame)

lemma initialise_params_prior:
  assumes "initialise_params kmeans gX st = Inr st'"
  shows "class_prior st' = vdivs (freq st) (fsum (freq st))"
proof -
  from assms obtain s where
    loop: "for_loop (init_class kmeans) [0..<length (clusters st)] (class_prior_compute st) = Inr s"
    and m: "m_step gX s = Inr st'"
    by (auto simp: initialise_params_def split: sum.splits)
  from init_classes_frame[OF loop] have "class_prior s = class_prior (class_prior_compute st)"
    by (simp add: same_data_def)
  moreover from m_step_frame[OF m] have "class_prior st' = class_prior s"
    by (simp add: m_frame_def same_data_def)
  ultimately show ?thesis by (simp add: class_prior_compute_def)
qed

lemma iterate_frame:
  assumes "iterate pdf gX st = Inr (ex, st')"
  shows "same_data st st'"
  using assms iterate_from_spec by (auto simp: iterate_def)

lemmas init_eval_defs = train_def initialise_params_def init_class_def class_prior_compute_def
  kmeans_call_def class_mask_def class_rows_def one_hot_def demo_kmeans_def iterate_def
  new_delta_def

lemma demo_train:
  "\<exists>ex st'. train demo_kmeans demo_pdf (Some (self_X demo_store)) demo_store = Inr (ex, st')"
proof -
  have "nat (max_iter demo_store) = Suc 0" by (simp add: demo_store_def)
  then show ?thesis
    by (simp add: init_eval_defs) (simp add: demo_store_def init_eval_defs eval_defs)
qed


text \<open>
  Claim C7. Training leaves the class prior at the value that \<^verbatim>\<open>_class_prior_compute\<close>
  gave it during initialisation, \<open>freq[i] / sum(freq)\<close> with \<open>freq[i]\<close> the sum of
  column \<open>i\<close> of \<open>Y\<close>: no E-step, no M-step and no run of the loop changes it.
\<close>

theorem class_prior_set_at_initialisation_only:
  assumes run: "train kmeans pdf gX st = Inr (ex, st')"
  shows "class_prior st' = map (\<lambda>f. fdiv f (fsum (freq st))) (freq st)
       \<and> (\<forall>s s'. e_step_lower_bound_likelihood pdf s = Inr s' \<longrightarrow> class_prior s' = class_prior s)
       \<and> (\<forall>s s'. m_step gX s = Inr s' \<longrightarrow> class_prior s' = class_prior s)
       \<and> (\<forall>s ex' s'. iterate pdf gX s = Inr (ex', s') \<longrightarrow> class_prior s' = class_prior s)
       \<and> class_prior (class_prior_compute st) = map (\<lambda>f. fdiv f (fsum (freq st))) (freq st)
       \<and> freq (MDA_init gt X0 cl k0 cfg) = map (\<lambda>i. fsum (col gt i)) [0..<ncols gt]"
proof (intro conjI)
  from run obtain s where i: "initialise_params kmeans gX st = Inr s"
    and it: "iterate pdf gX s = Inr (ex, st')"
    by (auto simp: train_def split: sum.splits)
  from iterate_frame[OF it] have "class_prior st' = class_prior s" by (simp add: same_data_def)
  with initialise_params_prior[OF i]
  show "class_prior st' = map (\<lambda>f. fdiv f (fsum (freq st))) (freq st)"
    by (simp add: vdivs_def)
next
  show "\<forall>s s'. e_step_lower_bound_likelihood pdf s = Inr s' \<longrightarrow> class_prior s' = class_prior s"
    using e_step_frame by (auto simp: e_frame_def same_data_def)
next
  show "\<forall>s s'. m_step gX s = Inr s' \<longrightarrow> class_prior s' = class_prior s"
    using m_step_frame by (auto simp: m_frame_def same_data_def)
next
  show "\<forall>s ex' s'. iterate pdf gX s = Inr (ex', s') \<longrightarrow> class_prior s' = class_prior s"
    using iterate_frame by (auto simp: same_data_def)
next
  show "class_prior (class_prior_compute st) = map (\<lambda>f. fdiv f (fsum (freq st))) (freq st)"
    by (simp add: class_prior_compute_def vdivs_def)
next
  show "freq (MDA_init gt X0 cl k0 cfg) = map (\<lambda>i. fsum (col gt i)) [0..<ncols gt]"
    by (simp add: MDA_init_def sum_axis0_def)
qed

theorem class_prior_witness:
  "\<exists>ex st'. train demo_kmeans demo_pdf (Some (self_X demo_store)) demo_store = Inr (ex, st')
     \<and> class_prior st' = [Fin 1]"
proof -
  from demo_train obtain ex st' where
    run: "train demo_kmeans demo_pdf (Some (self_X demo_store)) demo_store = Inr (ex, st')"
    by blast
  from class_prior_set_at_initialisation_only[OF run, THEN conjunct1]
  have "class_prior st' = [Fin 1]" by (simp add: demo_store_def fsum_def)
  with run show ?thesis by blast
qed
section \<open>Arguments of the clustering call, and the data of the M-step\<close>

text \<open>
  Claim C8. The constructor stores \<^verbatim>\<open>init_restarts\<close> in \<^verbatim>\<open>kmeans_retsarts\<close>, but the
  call \<^verbatim>\<open>KMeans(n_clusters, max_iter, init, tol)\<close> passes no restart count: whatever the
  stored value, the clustering primitive receives the same arguments, without
  \<^verbatim>\<open>n_init\<close>.
\<close>

theorem init_restarts_not_passed:
  "kmeans_retsarts (MDA_init gt X0 cl k0 (cfg\<lparr>init_restarts := r\<rparr>)) = r
   \<and> kmeans_call (MDA_init gt X0 cl k0 (cfg\<lparr>init_restarts := r\<rparr>)) c
       = kmeans_call (MDA_init gt X0 cl k0 cfg) c
   \<and> kmeans_call st c
       = \<lparr>n_clusters = c, arg_max_iter = kmeans_maxiter st, arg_init = ''k-means++'',
          arg_tol = kmeans_theshold st, arg_n_init = None\<rparr>
   \<and> init_restarts default_config = 2"
  by (simp add: kmeans_call_def MDA_init_def default_config_def)

text \<open>
  Claim C2. The weighted means are computed from the module-level name \<^verbatim>\<open>X\<close>, not
  from \<^verbatim>\<open>self.X\<close>. Where no such global exists the M-step raises \<^verbatim>\<open>NameError\<close>,
  although every component has positive mass; where a global of the same shape exists,
  the means are its weighted means (15 and 40 below) and not those of the stored data
  (1 and 4).
\<close>

theorem m_step_reads_global_X:
  "m_step None demo_store = Inl NameError
   \<and> mass demo_store 0 0 = Fin 2 \<and> mass demo_store 0 1 = Fin 1
   \<and> self_X demo_store = [[Fin 0], [Fin 2], [Fin 4]]
   \<and> (case m_step (Some [[Fin 10], [Fin 20], [Fin 40]]) demo_store of
         Inl e \<Rightarrow> False
       | Inr st' \<Rightarrow> mu st' = [[[Fin 15, Fin 40]]])
   \<and> (case m_step (Some (self_X demo_store)) demo_store of
         Inl e \<Rightarrow> False
       | Inr st' \<Rightarrow> mu st' = [[[Fin 1, Fin 4]]])"
  by (simp add: demo_store_def eval_defs mass_def weight_vector_def)

section \<open>The responsibilities after an E-step\<close>

lemma e_step_component_cong:
  assumes "e_frame st s"
  shows "e_step_component pdf s i = e_step_component pdf st i"
  using assms
  by (intro ext) (simp add: e_step_component_def e_frame_def same_data_def Let_def
      split: prod.split sum.split)

lemma normalise_rows_nth:
  assumes "has_shape n c R" and "t < n"
  shows "normalise_rows R c ! t = map (\<lambda>x. fdiv x (fsum (R ! t))) (R ! t)"
proof -
  have lt: "t < length R" and lr: "length (R ! t) = c"
    using assms by (auto simp: has_shape_def)
  have "map2 fdiv (R ! t) (map (fmul (fsum (R ! t))) (ones c))
        = map (\<lambda>x. fdiv x (fsum (R ! t))) (R ! t)"
    using lr by (intro nth_equalityI) (simp_all add: ones_def fmul_one_right)
  then show ?thesis
    using lt by (simp add: normalise_rows_def mdiv_def outer_def sum_axis1_def Let_def)
qed

lemma e_step_class_Inr:
  assumes "e_step_class pdf i (st, lb) = Inr (st', lb')"
  shows "\<exists>R. for_loop (e_step_component pdf st i) [0..<clusters st ! i]
                (responsibilities st ! i, lb) = Inr (R, lb')
            \<and> st' = st\<lparr>responsibilities :=
                         (responsibilities st)[i := normalise_rows R (clusters st ! i)]\<rparr>"
  using assms by (auto simp: e_step_class_def split: sum.splits prod.splits)

lemma e_classes_resp:
  assumes "for_loop (e_step_class pdf) is (st, lb) = Inr (st', lb')"
    and "distinct is" and "\<forall>i\<in>set is. i < length (responsibilities st)"
  shows "(\<forall>i\<in>set is. \<exists>R lb0 lb1.
            for_loop (e_step_component pdf st i) [0..<clusters st ! i]
              (responsibilities st ! i, lb0) = Inr (R, lb1)
            \<and> responsibilities st' ! i = normalise_rows R (clusters st ! i))
       \<and> (\<forall>i. i \<notin> set is \<longrightarrow> responsibilities st' ! i = responsibilities st ! i)"
  using assms
proof (induction "is" arbitrary: st lb)
  case Nil
  then show ?case by simp
next
  case (Cons i "is")
  from Cons.prems(1) obtain s1 lb1 where
    step: "e_step_class pdf i (st, lb) = Inr (s1, lb1)" and
    rest: "for_loop (e_step_class pdf) is (s1, lb1) = Inr (st', lb')"
    by (auto split: sum.splits)
  from e_step_class_Inr[OF step] obtain R where
    inner: "for_loop (e_step_component pdf st i) [0..<clusters st ! i]
              (responsibilities st ! i, lb) = Inr (R, lb1)" and
    s1: "s1 = st\<lparr>responsibilities :=
                   (responsibilities st)[i := normalise_rows R (clusters st ! i)]\<rparr>"
    by blast
  from e_step_class_frame[OF step] have fr: "e_frame st s1"
    and len: "length (responsibilities s1) = length (responsibilities st)" by auto
  have cl: "clusters s1 = clusters st" using fr by (simp add: e_frame_def same_data_def)
  have d: "distinct is" and ni: "i \<notin> set is" using Cons.prems(2) by auto
  have b: "\<forall>i\<in>set is. i < length (responsibilities s1)" using Cons.prems(3) len by simp
  note ih = Cons.IH[OF rest d b]
  have ri: "responsibilities s1 ! i = normalise_rows R (clusters st ! i)"
    using s1 Cons.prems(3) by simp
  have other: "i' \<noteq> i \<Longrightarrow> responsibilities s1 ! i' = responsibilities st ! i'" for i'
    using s1 by simp
  show ?case
  proof (intro conjI ballI allI impI)
    fix i' assume i': "i' \<in> set (i # is)"
    show "\<exists>R lb0 lb1.
            for_loop (e_step_component pdf st i') [0..<clusters st ! i']
              (responsibilities st ! i', lb0) = Inr (R, lb1)
            \<and> responsibilities st' ! i' = normalise_rows R (clusters st ! i')"
    proof (cases "i' = i")
      case True
      have "responsibilities st' ! i = responsibilities s1 ! i" using ih ni by blast
      with ri inner True show ?thesis by auto
    next
      case False
      with i' have "i' \<in> set is" by simp
      with ih obtain R' lb0 lb1' where
        "for_loop (e_step_component pdf s1 i') [0..<clusters s1 ! i']
              (responsibilities s1 ! i', lb0) = Inr (R', lb1')"
        "responsibilities st' ! i' = normalise_rows R' (clusters s1 ! i')" by blast
      then show ?thesis
        using e_step_component_cong[OF fr] cl other[OF False] by auto
    qed
  next
    fix i' assume "i' \<notin> set (i # is)"
    then have "i' \<notin> set is" and "i' \<noteq> i" by auto
    then show "responsibilities st' ! i' = responsibilities st ! i'"
      using ih other by auto
  qed
qed


lemma e_step_resp:
  assumes e: "e_step_lower_bound_likelihood pdf st = Inr st'" and wf: "wf_store st"
    and i: "i < self_k st" and t: "t < self_n st"
  shows "responsibilities st' ! i ! t =
           map (\<lambda>j. fdiv (unnorm pdf st i j ! t)
                       (fsum (map (\<lambda>j. unnorm pdf st i j ! t) [0..<clusters st ! i])))
               [0..<clusters st ! i]
       \<and> (\<forall>j<clusters st ! i. length (unnorm pdf st i j) = self_n st)"
proof -
  let ?c = "clusters st ! i"
  from e obtain s lb where
    loop: "for_loop (e_step_class pdf) [0..<length (responsibilities st)] (st, Fin 0) = Inr (s, lb)"
    and st': "st' = s\<lparr>lower_bounds := lower_bounds s @ [lb]\<rparr>"
    by (auto simp: e_step_lower_bound_likelihood_def split: sum.splits prod.splits)
  have lk: "length (responsibilities st) = self_k st" using wf by (simp add: wf_store_def)
  have sh: "has_shape (self_n st) ?c (responsibilities st ! i)"
    using wf i by (simp add: wf_store_def)
  have bnd: "\<forall>i\<in>set [0..<length (responsibilities st)]. i < length (responsibilities st)"
    by simp
  have mem: "i \<in> set [0..<length (responsibilities st)]" using i lk by simp
  from e_classes_resp[OF loop distinct_upt bnd, THEN conjunct1, rule_format, OF mem]
  obtain R lb0 lb1 where
    inner: "for_loop (e_step_component pdf st i) [0..<?c] (responsibilities st ! i, lb0) = Inr (R, lb1)"
    and ri: "responsibilities s ! i = normalise_rows R ?c"
    by blast
  have lenR: "length R = self_n st"
    using e_inner[OF inner] sh by (simp add: has_shape_def)
  have row: "R ! t = map (\<lambda>j. unnorm pdf st i j ! t) [0..<?c]"
    using e_inner_rows[OF inner sh t] .
  have rows: "\<forall>r\<in>set R. length r = ?c"
  proof
    fix r assume "r \<in> set R"
    then obtain t' where t': "t' < length R" and r: "r = R ! t'" by (auto simp: in_set_conv_nth)
    then have "t' < self_n st" using lenR by simp
    from e_inner_rows[OF inner sh this] r show "length r = ?c" by simp
  qed
  have shR: "has_shape (self_n st) ?c R" using lenR rows by (simp add: has_shape_def)
  have "responsibilities st' ! i ! t = normalise_rows R ?c ! t" using st' ri by simp
  also have "\<dots> = map (\<lambda>x. fdiv x (fsum (R ! t))) (R ! t)"
    using normalise_rows_nth[OF shR t] .
  finally have A: "responsibilities st' ! i ! t =
           map (\<lambda>j. fdiv (unnorm pdf st i j ! t)
                       (fsum (map (\<lambda>j. unnorm pdf st i j ! t) [0..<?c]))) [0..<?c]"
    by (simp add: row comp_def)
  have B: "\<forall>j<?c. length (unnorm pdf st i j) = self_n st"
    using e_inner[OF inner] sh by (simp add: has_shape_def)
  show ?thesis using A B by blast
qed

lemma fsum_map_Fin_fun: "fsum (map (\<lambda>j. Fin (g j)) js) = Fin (sum_list (map g js))"
  by (induction js) (simp_all add: fsum_Nil fsum_Cons)

lemma sum_list_div: "sum_list (map (\<lambda>j. g j / (S::real)) js) = sum_list (map g js) / S"
  by (induction js) (simp_all add: add_divide_distrib)

lemma sum_list_pos_real:
  "js \<noteq> [] \<Longrightarrow> \<forall>j\<in>set js. 0 < (g j :: real) \<Longrightarrow> 0 < sum_list (map g js)"
proof (induction js)
  case Nil
  then show ?case by simp
next
  case (Cons j js)
  show ?case
  proof (cases "js = []")
    case True
    then show ?thesis using Cons.prems by simp
  next
    case False
    then have "0 < sum_list (map g js)" using Cons by simp
    moreover have "0 < g j" using Cons.prems by simp
    ultimately show ?thesis by simp
  qed
qed

text \<open>
  Claim C4. After an E-step, in every class with at least one component, every row of the
  responsibility matrix (so every row of an observation labelled with that class) has the
  length \<open>clusters[i]\<close> and sums to 1, provided the clipped densities and the mixing
  weights that enter the row are positive.
\<close>

theorem e_step_rows_sum_to_one:
  assumes e: "e_step_lower_bound_likelihood pdf st = Inr st'" and wf: "wf_store st"
    and i: "i < self_k st" and c: "0 < clusters st ! i" and t: "t < self_n st"
    and pos: "\<forall>j<clusters st ! i. \<exists>p w. clipped pdf st i j ! t = Fin p \<and> 0 < p
                 \<and> latent_var_prior st ! i ! j = Fin w \<and> 0 < w"
  shows "fsum (responsibilities st' ! i ! t) = Fin 1
       \<and> length (responsibilities st' ! i ! t) = clusters st ! i"
proof -
  let ?c = "clusters st ! i"
  let ?u = "\<lambda>j. the_fin (unnorm pdf st i j ! t)"
  let ?S = "sum_list (map ?u [0..<?c])"
  note r = e_step_resp[OF e wf i t]
  have u: "unnorm pdf st i j ! t = Fin (?u j) \<and> 0 < ?u j" if j: "j < ?c" for j
  proof -
    from pos j obtain p w where p: "clipped pdf st i j ! t = Fin p" "0 < p"
      and w: "latent_var_prior st ! i ! j = Fin w" "0 < w" by blast
    have "length (clipped pdf st i j) = self_n st"
      using r j by (simp add: unnorm_def vscale_def)
    then have "unnorm pdf st i j ! t = Fin (p * w)"
      using t p w by (simp add: unnorm_def vscale_def)
    then show ?thesis using p w by simp
  qed
  have eq: "map (\<lambda>j. unnorm pdf st i j ! t) [0..<?c] = map (\<lambda>j. Fin (?u j)) [0..<?c]"
    using u by simp
  have S: "0 < ?S" using c u by (intro sum_list_pos_real) auto
  have "map (\<lambda>j. fdiv (unnorm pdf st i j ! t) (Fin ?S)) [0..<?c]
        = map (\<lambda>j. fdiv (Fin (?u j)) (Fin ?S)) [0..<?c]"
  proof (rule map_cong[OF refl])
    fix j assume "j \<in> set [0..<?c]"
    then have "j < ?c" by simp
    from u[OF this] have "unnorm pdf st i j ! t = Fin (?u j)" by simp
    then show "fdiv (unnorm pdf st i j ! t) (Fin ?S) = fdiv (Fin (?u j)) (Fin ?S)"
      by (rule arg_cong)
  qed
  moreover have "responsibilities st' ! i ! t
        = map (\<lambda>j. fdiv (unnorm pdf st i j ! t) (Fin ?S)) [0..<?c]"
    using r by (simp add: eq fsum_map_Fin_fun)
  ultimately have "responsibilities st' ! i ! t = map (\<lambda>j. fdiv (Fin (?u j)) (Fin ?S)) [0..<?c]"
    by simp
  also have "\<dots> = map (\<lambda>j. Fin (?u j / ?S)) [0..<?c]" using S by simp
  finally have row: "responsibilities st' ! i ! t = map (\<lambda>j. Fin (?u j / ?S)) [0..<?c]" .
  have "fsum (responsibilities st' ! i ! t) = Fin (sum_list (map (\<lambda>j. ?u j / ?S) [0..<?c]))"
    unfolding row by (rule fsum_map_Fin_fun)
  also have "\<dots> = Fin 1" using S by (simp add: sum_list_div)
  finally show ?thesis using row by simp
qed

lemma demo_wf: "wf_store demo_store"
  by (simp add: wf_store_def has_shape_def demo_store_def)

lemma demo_e_step: "\<exists>st'. e_step_lower_bound_likelihood demo_pdf demo_store = Inr st'"
  by (simp add: demo_store_def eval_defs)

lemma demo_pos:
  "\<forall>j<clusters demo_store ! 0. \<exists>p w. clipped demo_pdf demo_store 0 j ! 0 = Fin p \<and> 0 < p
       \<and> latent_var_prior demo_store ! 0 ! j = Fin w \<and> 0 < w"
proof (intro allI impI)
  fix j assume "j < clusters demo_store ! 0"
  then have j: "j = 0 \<or> j = 1" by (auto simp: demo_store_def)
  have c0: "clipped demo_pdf demo_store 0 0 ! 0 = Fin (3 / 4)"
    and c1: "clipped demo_pdf demo_store 0 1 ! 0 = Fin (1 / 4)"
    by (simp_all add: demo_store_def clipped_def eval_defs)
  have l0: "latent_var_prior demo_store ! 0 ! 0 = Fin (2 / 3)"
    and l1: "latent_var_prior demo_store ! 0 ! 1 = Fin (1 / 3)"
    by (simp_all add: demo_store_def)
  from j show "\<exists>p w. clipped demo_pdf demo_store 0 j ! 0 = Fin p \<and> 0 < p
       \<and> latent_var_prior demo_store ! 0 ! j = Fin w \<and> 0 < w"
  proof
    assume "j = 0"
    then show ?thesis using c0 l0 by (intro exI[of _ "3 / 4"] exI[of _ "2 / 3"]) simp
  next
    assume "j = 1"
    then show ?thesis using c1 l1 by (intro exI[of _ "1 / 4"] exI[of _ "1 / 3"]) simp
  qed
qed

theorem e_step_rows_witness:
  "wf_store demo_store \<and> 0 < self_k demo_store \<and> 0 < clusters demo_store ! 0
   \<and> 0 < self_n demo_store
   \<and> (\<exists>st'. e_step_lower_bound_likelihood demo_pdf demo_store = Inr st'
          \<and> fsum (responsibilities st' ! 0 ! 0) = Fin 1)"
proof -
  from demo_e_step obtain st' where
    e: "e_step_lower_bound_likelihood demo_pdf demo_store = Inr st'" by blast
  have i: "0 < self_k demo_store" and c: "0 < clusters demo_store ! 0"
    and t: "0 < self_n demo_store" by (simp_all add: demo_store_def)
  from e_step_rows_sum_to_one[OF e demo_wf i c t demo_pos]
  have "fsum (responsibilities st' ! 0 ! 0) = Fin 1" by simp
  with e demo_wf i c t show ?thesis by blast
qed

section \<open>Normalisation is not guarded\<close>

lemma for_loop_succeeds:
  assumes "P s" and "\<And>x a. x \<in> set xs \<Longrightarrow> P a \<Longrightarrow> \<exists>b. f x a = Inr b \<and> P b"
  shows "\<exists>s'. for_loop f xs s = Inr s' \<and> P s'"
  using assms
proof (induction xs arbitrary: s)
  case Nil
  then show ?case by simp
next
  case (Cons x xs)
  from Cons.prems obtain b where b: "f x s = Inr b" "P b" by (meson list.set_intros(1))
  from Cons.IH[OF b(2)] Cons.prems(2) obtain s' where "for_loop f xs b = Inr s'" "P s'"
    by (meson list.set_intros(2))
  then show ?case using b by auto
qed

lemma e_inner_succeeds:
  assumes "\<forall>j\<in>set js. \<exists>d. pdf (self_X st) (col (mu st ! i) j) (covar st) = Inr d
                              \<and> length d = length R"
  shows "\<exists>p. for_loop (e_step_component pdf st i) js (R, lb) = Inr p \<and> length (fst p) = length R"
proof (rule for_loop_succeeds[where P = "\<lambda>p. length (fst p) = length R"])
  show "length (fst (R, lb)) = length R" by simp
next
  fix j and a :: "matrix \<times> npfloat"
  assume j: "j \<in> set js" and a: "length (fst a) = length R"
  obtain R1 l1 where [simp]: "a = (R1, l1)" by (cases a)
  from assms j obtain d where "pdf (self_X st) (col (mu st ! i) j) (covar st) = Inr d"
    "length d = length R" by blast
  then show "\<exists>b. e_step_component pdf st i j a = Inr b \<and> length (fst b) = length R"
    using a by (simp add: e_step_component_def Let_def length_set_col vscale_def
        bounded_variable_def)
qed

lemma length_normalise_rows: "length (normalise_rows R c) = length R"
  by (simp add: normalise_rows_def mdiv_def outer_def sum_axis1_def Let_def)

lemma pdf_ok_frame: "e_frame st s \<Longrightarrow> pdf_ok pdf st \<Longrightarrow> pdf_ok pdf s"
  by (simp add: pdf_ok_def e_frame_def same_data_def)

lemma e_classes_succeed:
  assumes wf: "wf_store st" and ok: "pdf_ok pdf st"
  shows "\<exists>p. for_loop (e_step_class pdf) [0..<self_k st] (st, lb) = Inr p"
proof -
  let ?P = "\<lambda>p. e_frame st (fst p) \<and> length (responsibilities (fst p)) = self_k st
              \<and> (\<forall>i<self_k st. length (responsibilities (fst p) ! i) = self_n st)"
  have "\<exists>p. for_loop (e_step_class pdf) [0..<self_k st] (st, lb) = Inr p \<and> ?P p"
  proof (rule for_loop_succeeds[where P = ?P])
    show "?P (st, lb)" using wf by (simp add: e_frame_refl wf_store_def has_shape_def)
  next
    fix i and a :: "mda \<times> npfloat"
    assume i: "i \<in> set [0..<self_k st]" and a: "?P a"
    obtain s l where [simp]: "a = (s, l)" by (cases a)
    from a have fr: "e_frame st s" and lk: "length (responsibilities s) = self_k st"
      and ln: "\<forall>i<self_k st. length (responsibilities s ! i) = self_n st" by auto
    have ik: "i < self_k st" using i by simp
    have oks: "pdf_ok pdf s" using pdf_ok_frame[OF fr ok] .
    have eq: "self_k s = self_k st" "self_n s = self_n st" "clusters s = clusters st"
      using fr by (simp_all add: e_frame_def same_data_def)
    have "\<forall>j\<in>set [0..<clusters s ! i].
            \<exists>d. pdf (self_X s) (col (mu s ! i) j) (covar s) = Inr d
               \<and> length d = length (responsibilities s ! i)"
      using oks ik ln eq by (simp add: pdf_ok_def)
    from e_inner_succeeds[of "[0..<clusters s ! i]" pdf s i "responsibilities s ! i" l, OF this]
    obtain R l' where
      inner: "for_loop (e_step_component pdf s i) [0..<clusters s ! i]
                (responsibilities s ! i, l) = Inr (R, l')"
      and lenR: "length R = length (responsibilities s ! i)" by force
    let ?s' = "s\<lparr>responsibilities :=
                    (responsibilities s)[i := normalise_rows R (clusters s ! i)]\<rparr>"
    have step: "e_step_class pdf i a = Inr (?s', l')"
      using inner by (simp add: e_step_class_def)
    have "e_frame s ?s'" by (simp add: e_frame_def same_data_def)
    then have f': "e_frame st ?s'" using fr by (rule e_frame_trans[rotated])
    have "\<forall>i'<self_k st. length (responsibilities ?s' ! i') = self_n st"
      using ln lk lenR ik by (auto simp: nth_list_update length_normalise_rows)
    then show "\<exists>b. e_step_class pdf i a = Inr b \<and> ?P b"
      using step f' lk by auto
  qed
  then show ?thesis by blast
qed

lemma e_step_succeeds:
  assumes wf: "wf_store st" and ok: "pdf_ok pdf st"
  shows "\<exists>st'. e_step_lower_bound_likelihood pdf st = Inr st'"
proof -
  have lk: "length (responsibilities st) = self_k st" using wf by (simp add: wf_store_def)
  from e_classes_succeed[OF wf ok, of "Fin 0"] obtain s l where
    "for_loop (e_step_class pdf) [0..<self_k st] (st, Fin 0) = Inr (s, l)" by force
  then show ?thesis by (simp add: e_step_lower_bound_likelihood_def lk)
qed


lemma fdiv_zero_not_fin: "\<not> is_fin (fdiv x (Fin 0))"
  by (cases x) (simp_all add: inf_of_sign_def)

lemma fdiv_fin: "is_fin x \<Longrightarrow> is_fin y \<Longrightarrow> y \<noteq> Fin 0 \<Longrightarrow> is_fin (fdiv x y)"
  by (cases x; cases y) simp_all

text \<open>
  Claim C5, as stated, fails: with \<^verbatim>\<open>accuracy = 0\<close> and densities that have underflowed,
  the rows of the two outer observations sum to zero; the E-step returns normally and has
  written NaN into them.
\<close>

theorem e_step_writes_nan_on_zero_divisor:
  "map_sum id responsibilities (e_step_lower_bound_likelihood underflow_pdf collapsed_store)
     = Inr [[[NaN], [Fin 1], [NaN]]]"
  by (simp add: collapsed_store_def underflow_pdf_def eval_defs inf_of_sign_def)

text \<open>
  Claim C5, amended. The E-step checks no divisor. Whenever the density primitive returns
  one value per row, the E-step completes, and every entry it writes is the unnormalised
  entry divided by the sum of its row: not a finite number when that sum is zero, a finite
  one when the entry and a non-zero sum are finite.
\<close>

theorem e_step_divides_unchecked:
  assumes wf: "wf_store st" and ok: "pdf_ok pdf st"
  shows "\<exists>st'. e_step_lower_bound_likelihood pdf st = Inr st'
           \<and> (\<forall>i<self_k st. \<forall>t<self_n st. \<forall>j<clusters st ! i.
                 responsibilities st' ! i ! t ! j
                   = fdiv (unnorm pdf st i j ! t) (row_sum pdf st i t)
                 \<and> (row_sum pdf st i t = Fin 0 \<longrightarrow>
                       \<not> is_fin (responsibilities st' ! i ! t ! j))
                 \<and> (is_fin (unnorm pdf st i j ! t) \<and> is_fin (row_sum pdf st i t)
                       \<and> row_sum pdf st i t \<noteq> Fin 0 \<longrightarrow>
                       is_fin (responsibilities st' ! i ! t ! j)))"
proof -
  from e_step_succeeds[OF wf ok] obtain st' where
    e: "e_step_lower_bound_likelihood pdf st = Inr st'" by blast
  have "responsibilities st' ! i ! t ! j = fdiv (unnorm pdf st i j ! t) (row_sum pdf st i t)"
    if "i < self_k st" "t < self_n st" "j < clusters st ! i" for i t j
    using e_step_resp[OF e wf that(1,2)] that(3) by (simp add: row_sum_def)
  then show ?thesis
    using e fdiv_zero_not_fin fdiv_fin by (intro exI[of _ st']) auto
qed

lemma collapsed_wf: "wf_store collapsed_store"
  by (simp add: wf_store_def has_shape_def collapsed_store_def)

lemma collapsed_pdf_ok: "pdf_ok underflow_pdf collapsed_store"
  by (simp add: pdf_ok_def collapsed_store_def underflow_pdf_def)

theorem e_step_divides_unchecked_witness:
  "wf_store collapsed_store \<and> pdf_ok underflow_pdf collapsed_store
   \<and> row_sum underflow_pdf collapsed_store 0 0 = Fin 0
   \<and> (\<exists>st'. e_step_lower_bound_likelihood underflow_pdf collapsed_store = Inr st'
          \<and> \<not> is_fin (responsibilities st' ! 0 ! 0 ! 0))"
proof -
  have z: "row_sum underflow_pdf collapsed_store 0 0 = Fin 0"
    by (simp add: row_sum_def unnorm_def clipped_def collapsed_store_def underflow_pdf_def
        eval_defs)
  from e_step_divides_unchecked[OF collapsed_wf collapsed_pdf_ok] obtain st' where
    e: "e_step_lower_bound_likelihood underflow_pdf collapsed_store = Inr st'" and
    a: "\<forall>i<self_k collapsed_store. \<forall>t<self_n collapsed_store. \<forall>j<clusters collapsed_store ! i.
          (row_sum underflow_pdf collapsed_store i t = Fin 0 \<longrightarrow>
             \<not> is_fin (responsibilities st' ! i ! t ! j))"
    by blast
  have "\<not> is_fin (responsibilities st' ! 0 ! 0 ! 0)"
    using a z by (simp add: collapsed_store_def)
  then show ?thesis using collapsed_wf collapsed_pdf_ok z e by blast
qed
section \<open>Inference\<close>

lemma length_unnorm_Inr:
  "pdf (self_X st) (col (mu st ! c) j) (covar st) = Inr d \<Longrightarrow> length (unnorm pdf st c j) = length d"
  by (simp add: unnorm_def clipped_def vscale_def bounded_variable_def)

lemma post_inner:
  assumes "\<forall>j\<in>set js. \<exists>d. pdf (self_X st) (col (mu st ! c) j) (covar st) = Inr d
                              \<and> length d = length cp"
  shows "for_loop (posterior_component pdf st c) js cp
           = Inr (foldl vadd cp (map (unnorm pdf st c) js))"
  using assms
proof (induction js arbitrary: cp)
  case Nil
  then show ?case by simp
next
  case (Cons j js)
  from Cons.prems obtain d where d: "pdf (self_X st) (col (mu st ! c) j) (covar st) = Inr d"
    and ld: "length d = length cp" by auto
  have step: "posterior_component pdf st c j cp = Inr (vadd cp (unnorm pdf st c j))"
    using d ld by (simp add: posterior_component_eq)
  have l: "length (vadd cp (unnorm pdf st c j)) = length cp"
    using length_unnorm_Inr[of pdf st c j d, OF d] ld by (simp add: length_vadd)
  have "\<forall>j'\<in>set js. \<exists>d. pdf (self_X st) (col (mu st ! c) j') (covar st) = Inr d
                              \<and> length d = length (vadd cp (unnorm pdf st c j))"
    using Cons.prems l by simp
  from Cons.IH[of "vadd cp (unnorm pdf st c j)", OF this] step show ?case by simp
qed

lemma post_class_prob:
  assumes ok: "pdf_ok pdf st" and c: "c < self_k st"
  shows "for_loop (posterior_component pdf st c) [0..<clusters st ! c] (zeros (self_n st))
           = Inr (map (row_sum pdf st c) [0..<self_n st])"
proof -
  let ?us = "map (unnorm pdf st c) [0..<clusters st ! c]"
  have pd: "\<forall>j\<in>set [0..<clusters st ! c].
              \<exists>d. pdf (self_X st) (col (mu st ! c) j) (covar st) = Inr d
                 \<and> length d = length (zeros (self_n st))"
    using ok c by (simp add: pdf_ok_def zeros_def)
  have lu: "\<forall>u\<in>set ?us. length u = length (zeros (self_n st))"
  proof
    fix u assume "u \<in> set ?us"
    then obtain j where j: "j < clusters st ! c" and u: "u = unnorm pdf st c j" by auto
    from ok c j obtain d where d: "pdf (self_X st) (col (mu st ! c) j) (covar st) = Inr d"
      and ld: "length d = self_n st" by (auto simp: pdf_ok_def)
    from length_unnorm_Inr[of pdf st c j d, OF d] ld u
    show "length u = length (zeros (self_n st))" by (simp add: zeros_def)
  qed
  have "foldl vadd (zeros (self_n st)) ?us = map (row_sum pdf st c) [0..<self_n st]"
  proof (rule nth_equalityI)
    show "length (foldl vadd (zeros (self_n st)) ?us) = length (map (row_sum pdf st c) [0..<self_n st])"
      using length_foldl_vadd[OF lu] by (simp add: zeros_def)
    fix t assume "t < length (foldl vadd (zeros (self_n st)) ?us)"
    then have t: "t < self_n st" using length_foldl_vadd[OF lu] by (simp add: zeros_def)
    then have tz: "t < length (zeros (self_n st))" by (simp add: zeros_def)
    have "foldl vadd (zeros (self_n st)) ?us ! t = foldl fadd (Fin 0) (map (\<lambda>u. u ! t) ?us)"
      using nth_foldl_vadd[OF lu tz] t by (simp add: zeros_def)
    also have "\<dots> = row_sum pdf st c t"
      by (simp add: foldl_fadd_fsum fadd_zero_left comp_def row_sum_def)
    finally show "foldl vadd (zeros (self_n st)) ?us ! t = map (row_sum pdf st c) [0..<self_n st] ! t"
      using t by simp
  qed
  then show ?thesis
    using post_inner[of "[0..<clusters st ! c]" pdf st c "zeros (self_n st)", OF pd] by simp
qed

lemma posterior_class_eq:
  assumes ok: "pdf_ok pdf st" and c: "c < self_k st"
  shows "posterior_class pdf st c P
           = Inr (set_col P c (vscale (map (row_sum pdf st c) [0..<self_n st])
                                       (class_prior st ! c)))"
  using post_class_prob[OF ok c] c by (simp add: posterior_class_def)


lemma post_outer:
  assumes ok: "pdf_ok pdf st" and cs: "\<forall>c\<in>set cs. c < self_k st"
    and lp: "length P = self_n st"
  shows "\<exists>P'. for_loop (posterior_class pdf st) cs P = Inr P' \<and> length P' = self_n st
           \<and> (\<forall>t<self_n st. length (P' ! t) = length (P ! t)
                \<and> (\<forall>c<length (P ! t). P' ! t ! c =
                      (if c \<in> set cs then fmul (row_sum pdf st c t) (class_prior st ! c)
                       else P ! t ! c)))"
  using cs lp
proof (induction cs arbitrary: P)
  case Nil
  then show ?case by simp
next
  case (Cons c cs)
  let ?v = "vscale (map (row_sum pdf st c) [0..<self_n st]) (class_prior st ! c)"
  let ?P1 = "set_col P c ?v"
  have ck: "c < self_k st" using Cons.prems(1) by simp
  have step: "posterior_class pdf st c P = Inr ?P1" using posterior_class_eq[OF ok ck] .
  have lv: "length ?v = length P" using Cons.prems(2) by (simp add: vscale_def)
  have l1: "length ?P1 = self_n st" using lv Cons.prems(2) by (simp add: length_set_col)
  have r1: "?P1 ! t = (P ! t)[c := fmul (row_sum pdf st c t) (class_prior st ! c)]"
    if "t < self_n st" for t
    using that lv Cons.prems(2) by (simp add: nth_set_col vscale_def)
  have "\<forall>c\<in>set cs. c < self_k st" using Cons.prems(1) by simp
  from Cons.IH[OF this l1] obtain P' where
    loop: "for_loop (posterior_class pdf st) cs ?P1 = Inr P'" and l': "length P' = self_n st"
    and ent: "\<forall>t<self_n st. length (P' ! t) = length (?P1 ! t)
                \<and> (\<forall>c'<length (?P1 ! t). P' ! t ! c' =
                      (if c' \<in> set cs then fmul (row_sum pdf st c' t) (class_prior st ! c')
                       else ?P1 ! t ! c'))"
    by blast
  have "\<forall>t<self_n st. length (P' ! t) = length (P ! t)
                \<and> (\<forall>c'<length (P ! t). P' ! t ! c' =
                      (if c' \<in> set (c # cs) then fmul (row_sum pdf st c' t) (class_prior st ! c')
                       else P ! t ! c'))"
  proof (intro allI impI conjI)
    fix t assume t: "t < self_n st"
    show "length (P' ! t) = length (P ! t)" using ent t r1[OF t] by simp
    fix c' assume c': "c' < length (P ! t)"
    have "P' ! t ! c' = (if c' \<in> set cs then fmul (row_sum pdf st c' t) (class_prior st ! c')
                       else ?P1 ! t ! c')"
      using ent t c' r1[OF t] by simp
    then show "P' ! t ! c' =
                      (if c' \<in> set (c # cs) then fmul (row_sum pdf st c' t) (class_prior st ! c')
                       else P ! t ! c')"
      using r1[OF t] c' by (auto simp: nth_list_update)
  qed
  then show ?case using step loop l' by auto
qed

lemma posterior_probs_rows:
  assumes wf: "wf_store st" and ok: "pdf_ok pdf st"
  shows "\<exists>P. posterior_probs pdf st = Inr P \<and> length P = self_n st
           \<and> (\<forall>t<self_n st.
                 P ! t = map (\<lambda>x. fdiv x (fsum (map (\<lambda>c. fmul (row_sum pdf st c t)
                                                           (class_prior st ! c)) [0..<self_k st])))
                             (map (\<lambda>c. fmul (row_sum pdf st c t) (class_prior st ! c))
                                  [0..<self_k st]))"
proof -
  have lc: "length (clusters st) = self_k st" using wf by (simp add: wf_store_def)
  have cs: "\<forall>c\<in>set [0..<length (clusters st)]. c < self_k st" using lc by simp
  have lz: "length (zeros2 (self_n st) (self_k st)) = self_n st" by (simp add: zeros2_def)
  from post_outer[OF ok cs lz] obtain P' where
    loop: "for_loop (posterior_class pdf st) [0..<length (clusters st)]
             (zeros2 (self_n st) (self_k st)) = Inr P'" and l': "length P' = self_n st"
    and ent: "\<forall>t<self_n st. length (P' ! t) = length (zeros2 (self_n st) (self_k st) ! t)
                \<and> (\<forall>c<length (zeros2 (self_n st) (self_k st) ! t). P' ! t ! c =
                      (if c \<in> set [0..<length (clusters st)]
                       then fmul (row_sum pdf st c t) (class_prior st ! c)
                       else zeros2 (self_n st) (self_k st) ! t ! c))"
    by blast
  have row: "P' ! t = map (\<lambda>c. fmul (row_sum pdf st c t) (class_prior st ! c)) [0..<self_k st]"
    if t: "t < self_n st" for t
    using ent t lc by (intro nth_equalityI) (simp_all add: zeros2_def zeros_def)
  have sh: "has_shape (self_n st) (self_k st) P'"
    unfolding has_shape_def
  proof (intro conjI ballI)
    show "length P' = self_n st" by (rule l')
    fix r assume "r \<in> set P'"
    then obtain t where "t < length P'" "r = P' ! t" by (auto simp: in_set_conv_nth)
    then show "length r = self_k st" using row l' by simp
  qed
  have P: "posterior_probs pdf st = Inr (normalise_rows P' (self_k st))"
    using loop by (simp add: posterior_probs_def normalise_rows_def Let_def)
  show ?thesis
    using P normalise_rows_nth[OF sh] row by (simp add: length_normalise_rows l')
qed


lemma map_upt_cong: "(\<And>i. i < n \<Longrightarrow> f i = g i) \<Longrightarrow> map f [0..<n] = map g [0..<n]"
  by (rule map_cong) simp_all

lemma bound1_pos:
  assumes "0 < a" and "x \<noteq> NaN"
  shows "\<exists>p. bound1 (Fin a) (Fin (1 - a)) x = Fin p \<and> 0 < p"
  using assms by (cases x) (auto simp: bound1_def fgt_def Let_def)

lemma sum_list_pos_one:
  assumes "j0 \<in> set js" and "0 < (g j0 :: real)" and "\<forall>j\<in>set js. 0 \<le> g j"
  shows "0 < sum_list (map g js)"
  using assms
proof (induction js)
  case Nil
  then show ?case by simp
next
  case (Cons j js)
  have nn: "0 \<le> sum_list (map g js)" using Cons.prems(3) by (intro sum_list_nonneg) auto
  show ?case
  proof (cases "j0 = j")
    case True
    then show ?thesis using Cons.prems(2) nn by simp
  next
    case False
    then have "0 < sum_list (map g js)" using Cons by simp
    moreover have "0 \<le> g j" using Cons.prems(3) by simp
    ultimately show ?thesis by simp
  qed
qed

lemma unnorm_entry:
  assumes ok: "pdf_ok pdf st" and acc: "0 < accuracy st"
    and nonan: "\<forall>i<self_k st. \<forall>j<clusters st ! i. \<forall>d.
                  pdf (self_X st) (col (mu st ! i) j) (covar st) = Inr d \<longrightarrow> NaN \<notin> set d"
    and c: "c < self_k st" and j: "j < clusters st ! c" and t: "t < self_n st"
    and w: "latent_var_prior st ! c ! j = Fin w"
  shows "\<exists>p. unnorm pdf st c j ! t = Fin (p * w) \<and> 0 < p"
proof -
  from ok c j obtain d where d: "pdf (self_X st) (col (mu st ! c) j) (covar st) = Inr d"
    and ld: "length d = self_n st" by (auto simp: pdf_ok_def)
  have "d ! t \<in> set d" using t ld by simp
  then have "d ! t \<noteq> NaN" using nonan c j d by metis
  from bound1_pos[OF acc this] obtain p where
    p: "bound1 (Fin (accuracy st)) (Fin (1 - accuracy st)) (d ! t) = Fin p" "0 < p" by blast
  have "unnorm pdf st c j ! t = Fin (p * w)"
    using d ld t p w by (simp add: unnorm_def clipped_def vscale_def bounded_variable_def)
  then show ?thesis using p by blast
qed


lemma row_sum_nonneg:
  assumes ok: "pdf_ok pdf st" and acc: "0 < accuracy st"
    and nonan: "\<forall>i<self_k st. \<forall>j<clusters st ! i. \<forall>d.
                  pdf (self_X st) (col (mu st ! i) j) (covar st) = Inr d \<longrightarrow> NaN \<notin> set d"
    and w: "\<forall>i<self_k st. \<forall>j<clusters st ! i. \<exists>w. latent_var_prior st ! i ! j = Fin w \<and> 0 \<le> w"
    and c: "c < self_k st" and t: "t < self_n st"
  shows "\<exists>r. row_sum pdf st c t = Fin r \<and> 0 \<le> r
           \<and> ((\<exists>j<clusters st ! c. \<exists>w. latent_var_prior st ! c ! j = Fin w \<and> 0 < w) \<longrightarrow> 0 < r)"
proof -
  let ?cc = "clusters st ! c"
  let ?u = "\<lambda>j. the_fin (unnorm pdf st c j ! t)"
  have u: "unnorm pdf st c j ! t = Fin (?u j) \<and> 0 \<le> ?u j
           \<and> (\<forall>w'. latent_var_prior st ! c ! j = Fin w' \<and> 0 < w' \<longrightarrow> 0 < ?u j)"
    if j: "j < ?cc" for j
  proof -
    from w c j obtain w0 where w0: "latent_var_prior st ! c ! j = Fin w0" "0 \<le> w0" by blast
    from unnorm_entry[OF ok acc nonan c j t w0(1)] obtain p where
      p: "unnorm pdf st c j ! t = Fin (p * w0)" "0 < p" by blast
    then show ?thesis using w0 by auto
  qed
  have meq: "map (\<lambda>j. unnorm pdf st c j ! t) [0..<?cc] = map (\<lambda>j. Fin (?u j)) [0..<?cc]"
    using u by (intro map_upt_cong) simp
  have rs: "row_sum pdf st c t = Fin (sum_list (map ?u [0..<?cc]))"
    unfolding row_sum_def meq by (rule fsum_map_Fin_fun)
  have nn: "0 \<le> sum_list (map ?u [0..<?cc])"
    using u by (intro sum_list_nonneg) auto
  have pos: "0 < sum_list (map ?u [0..<?cc])"
    if "\<exists>j<?cc. \<exists>w. latent_var_prior st ! c ! j = Fin w \<and> 0 < w"
  proof -
    from that obtain j0 w' where j0: "j0 < ?cc" "latent_var_prior st ! c ! j0 = Fin w'" "0 < w'"
      by blast
    have a: "0 < ?u j0" using u[OF j0(1)] j0 by blast
    have b: "j0 \<in> set [0..<?cc]" using j0 by simp
    have d: "\<forall>j\<in>set [0..<?cc]. 0 \<le> ?u j" using u by simp
    show ?thesis using sum_list_pos_one[of j0 "[0..<?cc]" ?u, OF b a d] .
  qed
  show ?thesis using rs nn pos by blast
qed


section \<open>Inference\<close>

text \<open>
  Claim C3, as stated: a call of \<^verbatim>\<open>posterior_probs\<close> with a query matrix is rejected,
  the method takes no argument besides the object.
\<close>

theorem posterior_probs_takes_no_query:
  "call_posterior_probs demo_pdf demo_store [[[Fin 100]]] = Inl TypeError"
  by (simp add: call_posterior_probs_def)

text \<open>
  Claim C3, amended. \<^verbatim>\<open>posterior_probs\<close> takes no query: it scores the stored training
  matrix and returns an \<open>n \<times> k\<close> matrix. For a store of consistent shapes with a positive
  accuracy, densities free of NaN, non-negative finite mixing weights and class priors,
  and some class of positive prior with a component of positive weight, every row of the
  result consists of non-negative finite numbers that sum to 1. A call with any further
  argument raises \<^verbatim>\<open>TypeError\<close>.
\<close>

theorem posterior_probs_row_stochastic:
  assumes wf: "wf_store st" and ok: "pdf_ok pdf st" and acc: "0 < accuracy st"
    and nonan: "\<forall>i<self_k st. \<forall>j<clusters st ! i. \<forall>d.
                  pdf (self_X st) (col (mu st ! i) j) (covar st) = Inr d \<longrightarrow> NaN \<notin> set d"
    and w: "\<forall>i<self_k st. \<forall>j<clusters st ! i. \<exists>w. latent_var_prior st ! i ! j = Fin w \<and> 0 \<le> w"
    and cp: "\<forall>i<self_k st. \<exists>q. class_prior st ! i = Fin q \<and> 0 \<le> q"
    and some: "\<exists>i<self_k st. (\<exists>q. class_prior st ! i = Fin q \<and> 0 < q)
                 \<and> (\<exists>j<clusters st ! i. \<exists>w. latent_var_prior st ! i ! j = Fin w \<and> 0 < w)"
  shows "(\<exists>P. posterior_probs pdf st = Inr P \<and> call_posterior_probs pdf st [] = Inr P
            \<and> length P = self_n st
            \<and> (\<forall>t<self_n st. length (P ! t) = self_k st
                  \<and> (\<forall>c<self_k st. \<exists>r. P ! t ! c = Fin r \<and> 0 \<le> r)
                  \<and> fsum (P ! t) = Fin 1))
       \<and> (\<forall>Xq rest. call_posterior_probs pdf st (Xq # rest) = Inl TypeError)"
proof -
  let ?k = "self_k st"
  from posterior_probs_rows[OF wf ok] obtain P where
    P: "posterior_probs pdf st = Inr P" and lP: "length P = self_n st"
    and rows: "\<forall>t<self_n st.
                 P ! t = map (\<lambda>x. fdiv x (fsum (map (\<lambda>c. fmul (row_sum pdf st c t)
                                                           (class_prior st ! c)) [0..<?k])))
                             (map (\<lambda>c. fmul (row_sum pdf st c t) (class_prior st ! c)) [0..<?k])"
    by blast
  have row_ok: "length (P ! t) = ?k \<and> (\<forall>c<?k. \<exists>r. P ! t ! c = Fin r \<and> 0 \<le> r)
                  \<and> fsum (P ! t) = Fin 1" if t: "t < self_n st" for t
  proof -
    let ?g = "\<lambda>c. the_fin (fmul (row_sum pdf st c t) (class_prior st ! c))"
    let ?S = "sum_list (map ?g [0..<?k])"
    have g: "fmul (row_sum pdf st c t) (class_prior st ! c) = Fin (?g c) \<and> 0 \<le> ?g c"
      if c: "c < ?k" for c
    proof -
      from row_sum_nonneg[OF ok acc nonan w c t] obtain r where
        r: "row_sum pdf st c t = Fin r" "0 \<le> r" by blast
      from cp c obtain q where q: "class_prior st ! c = Fin q" "0 \<le> q" by blast
      show ?thesis using r q by simp
    qed
    from some obtain c0 q0 where c0: "c0 < ?k" and q0: "class_prior st ! c0 = Fin q0" "0 < q0"
      and ex: "\<exists>j<clusters st ! c0. \<exists>w. latent_var_prior st ! c0 ! j = Fin w \<and> 0 < w"
      by blast
    from row_sum_nonneg[OF ok acc nonan w c0 t] ex obtain r0 where
      r0: "row_sum pdf st c0 t = Fin r0" "0 < r0" by blast
    have g0: "0 < ?g c0" using r0 q0 by simp
    have mem: "c0 \<in> set [0..<?k]" using c0 by simp
    have nn: "\<forall>c\<in>set [0..<?k]. 0 \<le> ?g c" using g by simp
    have S: "0 < ?S" using sum_list_pos_one[of c0 "[0..<?k]" ?g, OF mem g0 nn] .
    have meq: "map (\<lambda>c. fmul (row_sum pdf st c t) (class_prior st ! c)) [0..<?k]
               = map (\<lambda>c. Fin (?g c)) [0..<?k]"
      using g by (intro map_upt_cong) simp
    have "P ! t = map (\<lambda>x. fdiv x (fsum (map (\<lambda>c. fmul (row_sum pdf st c t)
                                                           (class_prior st ! c)) [0..<?k])))
                      (map (\<lambda>c. fmul (row_sum pdf st c t) (class_prior st ! c)) [0..<?k])"
      using rows t by blast
    then have "P ! t = map (\<lambda>x. fdiv x (fsum (map (\<lambda>c. Fin (?g c)) [0..<?k])))
                      (map (\<lambda>c. Fin (?g c)) [0..<?k])"
      unfolding meq .
    also have "\<dots> = map (\<lambda>c. fdiv (Fin (?g c)) (Fin ?S)) [0..<?k]"
      unfolding fsum_map_Fin_fun by (simp add: comp_def)
    also have "\<dots> = map (\<lambda>c. Fin (?g c / ?S)) [0..<?k]" using S by simp
    finally have row: "P ! t = map (\<lambda>c. Fin (?g c / ?S)) [0..<?k]" .
    have A: "length (P ! t) = ?k" unfolding row by simp
    have B: "\<forall>c<?k. \<exists>r. P ! t ! c = Fin r \<and> 0 \<le> r"
    proof (intro allI impI)
      fix c assume c: "c < ?k"
      have "P ! t ! c = Fin (?g c / ?S)" unfolding row using c by simp
      moreover have "0 \<le> ?g c / ?S" using g[OF c] S by simp
      ultimately show "\<exists>r. P ! t ! c = Fin r \<and> 0 \<le> r" by blast
    qed
    have "fsum (P ! t) = Fin (sum_list (map (\<lambda>c. ?g c / ?S) [0..<?k]))"
      unfolding row by (rule fsum_map_Fin_fun)
    also have "\<dots> = Fin 1" using S by (simp add: sum_list_div)
    finally show ?thesis using A B by blast
  qed
  have call: "call_posterior_probs pdf st [] = Inr P"
    using P by (simp add: call_posterior_probs_def)
  have ty: "\<forall>Xq rest. call_posterior_probs pdf st (Xq # rest) = Inl TypeError"
    by (simp add: call_posterior_probs_def)
  show ?thesis using P call lP row_ok ty by blast
qed


lemma all_lt2: "(\<forall>j<(2::nat). Q j) \<longleftrightarrow> Q 0 \<and> Q 1"
  by (auto simp: less_2_cases_iff)

lemma ex_lt2: "(\<exists>j<(2::nat). Q j) \<longleftrightarrow> Q 0 \<or> Q 1"
  by (auto simp: less_2_cases_iff)

lemma fin_ex_iff: "(\<exists>w. x = Fin w \<and> Q w) \<longleftrightarrow> is_fin x \<and> Q (the_fin x)"
  by (cases x) auto

lemma demo_pdf_ok: "pdf_ok demo_pdf demo_store"
  by (simp add: pdf_ok_def demo_store_def demo_pdf_def)

lemma demo_nonan:
  "\<forall>i<self_k demo_store. \<forall>j<clusters demo_store ! i. \<forall>d.
     demo_pdf (self_X demo_store) (col (mu demo_store ! i) j) (covar demo_store) = Inr d
       \<longrightarrow> NaN \<notin> set d"
  by (auto simp: demo_store_def demo_pdf_def)

theorem posterior_probs_witness:
  "wf_store demo_store \<and> pdf_ok demo_pdf demo_store \<and> 0 < accuracy demo_store
   \<and> (\<exists>P. posterior_probs demo_pdf demo_store = Inr P \<and> length P = 3
          \<and> fsum (P ! 0) = Fin 1)"
proof -
  have acc: "0 < accuracy demo_store" by (simp add: demo_store_def)
  have w: "\<forall>i<self_k demo_store. \<forall>j<clusters demo_store ! i.
             \<exists>w. latent_var_prior demo_store ! i ! j = Fin w \<and> 0 \<le> w"
    unfolding fin_ex_iff by (simp add: demo_store_def all_lt2)
  have cp: "\<forall>i<self_k demo_store. \<exists>q. class_prior demo_store ! i = Fin q \<and> 0 \<le> q"
    unfolding fin_ex_iff by (simp add: demo_store_def)
  have some: "\<exists>i<self_k demo_store. (\<exists>q. class_prior demo_store ! i = Fin q \<and> 0 < q)
                 \<and> (\<exists>j<clusters demo_store ! i.
                       \<exists>w. latent_var_prior demo_store ! i ! j = Fin w \<and> 0 < w)"
    unfolding fin_ex_iff by (simp add: demo_store_def ex_lt2)
  from posterior_probs_row_stochastic[OF demo_wf demo_pdf_ok acc demo_nonan w cp some,
      THEN conjunct1]
  obtain P where "posterior_probs demo_pdf demo_store = Inr P"
    "length P = self_n demo_store"
    "\<forall>t<self_n demo_store. fsum (P ! t) = Fin 1" by blast
  then have "posterior_probs demo_pdf demo_store = Inr P \<and> length P = 3 \<and> fsum (P ! 0) = Fin 1"
    by (simp add: demo_store_def)
  then show ?thesis using demo_wf demo_pdf_ok acc by blast
qed
section \<open>The M-step in closed form\<close>

lemma has_shape_ncols: "has_shape r c A \<Longrightarrow> 0 < r \<Longrightarrow> ncols A = c"
  by (cases A) (auto simp: has_shape_def ncols_def)

lemma nth_col: "t < length A \<Longrightarrow> col A j ! t = A ! t ! j"
  by (simp add: col_def)

lemma length_col: "length (col A j) = length A"
  by (simp add: col_def)

lemma has_shape_nth: "has_shape r c A \<Longrightarrow> t < r \<Longrightarrow> length (A ! t) = c"
  by (simp add: has_shape_def)

lemma has_shape_set_col:
  "has_shape r c A \<Longrightarrow> length v = r \<Longrightarrow> has_shape r c (set_col A j v)"
  by (auto simp: has_shape_def set_col_def in_set_conv_nth) (metis nth_mem)

lemma col_set_col:
  assumes "has_shape r c A" and "length v = r" and "j < c"
  shows "col (set_col A j v) j' = (if j' = j then v else col A j')"
proof (rule nth_equalityI)
  show "length (col (set_col A j v) j') = length (if j' = j then v else col A j')"
    using assms by (simp add: length_col length_set_col has_shape_def)
  fix t assume "t < length (col (set_col A j v) j')"
  then have t: "t < r" using assms by (simp add: length_col length_set_col has_shape_def)
  then have "length (A ! t) = c" using assms has_shape_nth by blast
  then show "col (set_col A j v) j' ! t = (if j' = j then v else col A j') ! t"
    using assms t by (simp add: nth_col length_set_col nth_set_col has_shape_def)
qed

lemma length_weight_vector:
  "wf_store st \<Longrightarrow> i < self_k st \<Longrightarrow> length (weight_vector st i j) = self_n st"
  by (simp add: weight_vector_def vmul_def length_col wf_store_def has_shape_def)

lemma length_weighted_mean:
  assumes "has_shape n m G" and "0 < n"
  shows "length (weighted_mean G st i j) = m"
  using has_shape_ncols[OF assms]
  by (simp add: weighted_mean_def vdivs_def sum_axis1_def dot_def mtranspose_def)


lemma m_component_eq:
  assumes wf: "wf_store st" and G: "has_shape (self_n st) (self_m st) G"
    and i: "i < self_k st" and j: "j < clusters st ! i"
  shows "m_step_component (Some G) i j (st, cv)
           = Inr (m_update G st i j, madd cv (m_scatter G st (i, j)))"
proof -
  let ?ci = "vmul (col (self_Y st) i) (col (responsibilities st ! i) j)"
  let ?wm = "vdivs (sum_axis1 (dot (mtranspose G) (diagflat ?ci))) (fsum ?ci)"
  let ?st1 = "st\<lparr>latent_var_prior :=
                     (latent_var_prior st)
                       [i := (latent_var_prior st ! i)[j := fdiv (fsum ?ci) (freq st ! i)]]\<rparr>"
  have n0: "0 < self_n st" using wf by (simp add: wf_store_def)
  have ci: "?ci = weight_vector st i j" by (simp add: weight_vector_def)
  have wm: "?wm = weighted_mean G st i j" by (simp add: weighted_mean_def mass_def ci)
  have lG: "length G = length ?ci"
    using G length_weight_vector[OF wf i, of j] by (simp add: ci has_shape_def)
  have shmu: "has_shape (self_m st) (clusters st ! i) (mu st ! i)"
    using wf i by (simp add: wf_store_def)
  have lwm: "length ?wm = length (mu ?st1 ! i)"
    using length_weighted_mean[OF G n0, of st i j] shmu by (simp add: wm has_shape_def)
  have asg: "assign_col (mu ?st1 ! i) j ?wm = Inr (set_col (mu st ! i) j ?wm)"
    using lwm by (simp add: assign_col_def)
  have imu: "i < length (mu st)" using wf i by (simp add: wf_store_def)
  have lwm2: "length ?wm = self_m st"
    using length_weighted_mean[OF G n0, of st i j] by (simp add: wm)
  have colj: "col (set_col (mu st ! i) j ?wm) j = ?wm"
    using col_set_col[OF shmu lwm2 j, of j] by simp
  show ?thesis
    unfolding m_step_component_def
    apply (simp only: prod.case Let_def option.case lG if_False not_not refl asg sum.case)
    apply (simp add: imu colj)
    apply (simp add: m_update_def m_scatter_def scatter_def Let_def weighted_mean_def mass_def
        weight_vector_def)
    done
qed


lemma m_frame_funs:
  assumes "m_frame st s"
  shows "weight_vector s = weight_vector st" and "mass s = mass st"
    and "weighted_mean G s = weighted_mean G st" and "scatter s = scatter st"
    and "m_scatter G s = m_scatter G st"
  using assms
  by (auto simp: m_frame_def same_data_def weight_vector_def mass_def weighted_mean_def
      scatter_def m_scatter_def fun_eq_iff)

lemma m_update_frame: "m_frame st (m_update G st i j)"
  by (simp add: m_update_def m_frame_def same_data_def)

lemma m_update_wf:
  assumes wf: "wf_store st" and G: "has_shape (self_n st) (self_m st) G"
    and i: "i < self_k st"
  shows "wf_store (m_update G st i j)"
proof -
  have n0: "0 < self_n st" using wf by (simp add: wf_store_def)
  have lw: "length (weighted_mean G st i j) = self_m st"
    using length_weighted_mean[OF G n0] .
  have sh: "has_shape (self_m st) (clusters st ! i) (mu st ! i)"
    using wf i by (simp add: wf_store_def)
  have "has_shape (self_m st) (clusters st ! i) (set_col (mu st ! i) j (weighted_mean G st i j))"
    using has_shape_set_col[OF sh lw] .
  then show ?thesis
    using wf i by (auto simp: wf_store_def m_update_def nth_list_update)
qed

lemma m_update_values:
  assumes wf: "wf_store st" and G: "has_shape (self_n st) (self_m st) G"
    and i: "i < self_k st" and j: "j < clusters st ! i"
    and i': "i' < self_k st" and j': "j' < clusters st ! i'"
  shows "col (mu (m_update G st i j) ! i') j'
           = (if (i', j') = (i, j) then weighted_mean G st i j else col (mu st ! i') j')"
    and "latent_var_prior (m_update G st i j) ! i' ! j'
           = (if (i', j') = (i, j) then fdiv (mass st i j) (freq st ! i)
              else latent_var_prior st ! i' ! j')"
proof -
  have n0: "0 < self_n st" using wf by (simp add: wf_store_def)
  have lw: "length (weighted_mean G st i j) = self_m st"
    using length_weighted_mean[OF G n0] .
  have sh: "has_shape (self_m st) (clusters st ! i) (mu st ! i)"
    using wf i by (simp add: wf_store_def)
  have lm: "length (mu st) = self_k st" and ll: "length (latent_var_prior st) = self_k st"
    and lli: "length (latent_var_prior st ! i) = clusters st ! i"
    using wf i by (simp_all add: wf_store_def)
  show "col (mu (m_update G st i j) ! i') j'
           = (if (i', j') = (i, j) then weighted_mean G st i j else col (mu st ! i') j')"
    using col_set_col[OF sh lw j, of j'] i i' lm
    by (auto simp: m_update_def nth_list_update)
  show "latent_var_prior (m_update G st i j) ! i' ! j'
           = (if (i', j') = (i, j) then fdiv (mass st i j) (freq st ! i)
              else latent_var_prior st ! i' ! j')"
    using i i' j j' ll lli by (auto simp: m_update_def nth_list_update)
qed


lemma m_flat:
  assumes wf: "wf_store st" and G: "has_shape (self_n st) (self_m st) G"
    and ps: "\<forall>p\<in>set ps. fst p < self_k st \<and> snd p < clusters st ! fst p"
  shows "\<exists>s. for_loop (\<lambda>p. m_step_component (Some G) (fst p) (snd p)) ps (st, cv)
               = Inr (s, foldl madd cv (map (m_scatter G st) ps))
           \<and> m_frame st s \<and> wf_store s
           \<and> (\<forall>i<self_k st. \<forall>j<clusters st ! i.
                 col (mu s ! i) j
                   = (if (i, j) \<in> set ps then weighted_mean G st i j else col (mu st ! i) j)
                 \<and> latent_var_prior s ! i ! j
                   = (if (i, j) \<in> set ps then fdiv (mass st i j) (freq st ! i)
                      else latent_var_prior st ! i ! j))"
  using wf G ps
proof (induction ps arbitrary: st cv)
  case Nil
  then show ?case by (simp add: m_frame_refl)
next
  case (Cons p ps)
  obtain i j where p: "p = (i, j)" by (cases p)
  let ?s1 = "m_update G st i j"
  have i: "i < self_k st" and j: "j < clusters st ! i" using Cons.prems(3) p by auto
  have step: "m_step_component (Some G) i j (st, cv) = Inr (?s1, madd cv (m_scatter G st (i, j)))"
    using m_component_eq[OF Cons.prems(1,2) i j] .
  have fr: "m_frame st ?s1" by (rule m_update_frame)
  have wf1: "wf_store ?s1" using m_update_wf[OF Cons.prems(1,2) i] .
  have eqs: "self_n ?s1 = self_n st" "self_m ?s1 = self_m st" "self_k ?s1 = self_k st"
    "clusters ?s1 = clusters st" "freq ?s1 = freq st"
    using fr by (simp_all add: m_frame_def same_data_def)
  have G1: "has_shape (self_n ?s1) (self_m ?s1) G" using Cons.prems(2) eqs by simp
  have ps1: "\<forall>p\<in>set ps. fst p < self_k ?s1 \<and> snd p < clusters ?s1 ! fst p"
    using Cons.prems(3) eqs by simp
  from Cons.IH[OF wf1 G1 ps1, of "madd cv (m_scatter G st (i, j))"] obtain s where
    loop: "for_loop (\<lambda>p. m_step_component (Some G) (fst p) (snd p)) ps
             (?s1, madd cv (m_scatter G st (i, j)))
           = Inr (s, foldl madd (madd cv (m_scatter G st (i, j))) (map (m_scatter G ?s1) ps))"
    and fs: "m_frame ?s1 s" and wfs: "wf_store s"
    and vals: "\<forall>i'<self_k ?s1. \<forall>j'<clusters ?s1 ! i'.
                 col (mu s ! i') j'
                   = (if (i', j') \<in> set ps then weighted_mean G ?s1 i' j'
                      else col (mu ?s1 ! i') j')
                 \<and> latent_var_prior s ! i' ! j'
                   = (if (i', j') \<in> set ps then fdiv (mass ?s1 i' j') (freq ?s1 ! i')
                      else latent_var_prior ?s1 ! i' ! j')"
    by blast
  note ff = m_frame_funs[OF fr]
  have A: "for_loop (\<lambda>p. m_step_component (Some G) (fst p) (snd p)) (p # ps) (st, cv)
             = Inr (s, foldl madd cv (map (m_scatter G st) (p # ps)))"
    using step loop by (simp add: p ff(5))
  have B: "m_frame st s" using fr fs by (rule m_frame_trans)
  have C: "\<forall>i'<self_k st. \<forall>j'<clusters st ! i'.
                 col (mu s ! i') j'
                   = (if (i', j') \<in> set (p # ps) then weighted_mean G st i' j'
                      else col (mu st ! i') j')
                 \<and> latent_var_prior s ! i' ! j'
                   = (if (i', j') \<in> set (p # ps) then fdiv (mass st i' j') (freq st ! i')
                      else latent_var_prior st ! i' ! j')"
  proof (intro allI impI)
    fix i' j' assume i': "i' < self_k st" and j': "j' < clusters st ! i'"
    note v = vals[rule_format, of i' j', unfolded eqs ff, OF i' j']
    note u = m_update_values[OF Cons.prems(1,2) i j i' j']
    show "col (mu s ! i') j'
                   = (if (i', j') \<in> set (p # ps) then weighted_mean G st i' j'
                      else col (mu st ! i') j')
                 \<and> latent_var_prior s ! i' ! j'
                   = (if (i', j') \<in> set (p # ps) then fdiv (mass st i' j') (freq st ! i')
                      else latent_var_prior st ! i' ! j')"
      using v u by (auto simp: p)
  qed
  show ?case using A B C wfs by blast
qed


lemma for_loop_map: "for_loop f (map g xs) s = for_loop (\<lambda>x. f (g x)) xs s"
  by (induction xs arbitrary: s) (simp_all split: sum.splits)

lemma m_nested_flat:
  "for_loop (m_step_class gX) is p
     = for_loop (\<lambda>q. m_step_component gX (fst q) (snd q))
         (concat (map (\<lambda>i. map (Pair i) [0..<clusters (fst p) ! i]) is)) p"
proof (induction "is" arbitrary: p)
  case Nil
  then show ?case by simp
next
  case (Cons i "is")
  obtain st cv where p: "p = (st, cv)" by (cases p)
  let ?f = "\<lambda>q. m_step_component gX (fst q) (snd q)"
  have inner: "for_loop ?f (map (Pair i) [0..<clusters st ! i]) p
                 = for_loop (m_step_component gX i) [0..<clusters st ! i] p"
    by (simp add: for_loop_map)
  show ?case
  proof (cases "for_loop (m_step_component gX i) [0..<clusters st ! i] p")
    case (Inl e)
    then show ?thesis using inner by (simp add: p for_loop_append m_step_class_def)
  next
    case (Inr p1)
    obtain s1 c1 where p1: "p1 = (s1, c1)" by (cases p1)
    from Inr have "m_frame st s1" using m_inner_frame[of gX i _ st cv s1 c1] by (simp add: p p1)
    then have cl: "clusters s1 = clusters st" by (simp add: m_frame_def same_data_def)
    show ?thesis
      using Inr inner Cons.IH[of p1] cl
      by (simp add: p p1 for_loop_append m_step_class_def)
  qed
qed

lemma components_valid:
  "\<forall>p\<in>set (components st). fst p < self_k st \<and> snd p < clusters st ! fst p"
  by (auto simp: components_def)

lemma in_components:
  "i < self_k st \<Longrightarrow> j < clusters st ! i \<Longrightarrow> (i, j) \<in> set (components st)"
  unfolding components_def by (auto intro!: bexI[of _ i])

lemma m_step_closed:
  assumes wf: "wf_store st" and G: "has_shape (self_n st) (self_m st) G"
  shows "\<exists>s. m_step (Some G) st
               = Inr (s\<lparr>covar := mdivs (foldl madd (zeros2 (self_m st) (self_m st))
                                            (map (m_scatter G st) (components st)))
                                     (Fin (real (self_n st)))\<rparr>)
           \<and> m_frame st s \<and> wf_store s
           \<and> (\<forall>i<self_k st. \<forall>j<clusters st ! i.
                 col (mu s ! i) j = weighted_mean G st i j
                 \<and> latent_var_prior s ! i ! j = fdiv (mass st i j) (freq st ! i))"
proof -
  from m_flat[OF wf G components_valid, of "zeros2 (self_m st) (self_m st)"] obtain s where
    loop: "for_loop (\<lambda>p. m_step_component (Some G) (fst p) (snd p)) (components st)
             (st, zeros2 (self_m st) (self_m st))
           = Inr (s, foldl madd (zeros2 (self_m st) (self_m st))
                       (map (m_scatter G st) (components st)))"
    and fr: "m_frame st s" and wfs: "wf_store s"
    and vals: "\<forall>i<self_k st. \<forall>j<clusters st ! i.
                 col (mu s ! i) j
                   = (if (i, j) \<in> set (components st) then weighted_mean G st i j
                      else col (mu st ! i) j)
                 \<and> latent_var_prior s ! i ! j
                   = (if (i, j) \<in> set (components st) then fdiv (mass st i j) (freq st ! i)
                      else latent_var_prior st ! i ! j)"
    by blast
  have n: "self_n s = self_n st" using fr by (simp add: m_frame_def same_data_def)
  have "m_step (Some G) st
               = Inr (s\<lparr>covar := mdivs (foldl madd (zeros2 (self_m st) (self_m st))
                                            (map (m_scatter G st) (components st)))
                                     (Fin (real (self_n st)))\<rparr>)"
    using loop n
    by (simp add: m_step_def m_nested_flat[of "Some G" "[0..<self_k st]"] components_def)
  moreover have "\<forall>i<self_k st. \<forall>j<clusters st ! i.
                 col (mu s ! i) j = weighted_mean G st i j
                 \<and> latent_var_prior s ! i ! j = fdiv (mass st i j) (freq st ! i)"
    using vals in_components by simp
  ultimately show ?thesis using fr wfs by blast
qed

section \<open>Components without mass\<close>

lemma degenerate_wf: "wf_store degenerate_store"
  by (simp add: wf_store_def degenerate_store_def has_shape_def)

lemma degenerate_G: "has_shape (self_n degenerate_store) (self_m degenerate_store) (self_X degenerate_store)"
  by (simp add: degenerate_store_def has_shape_def)

lemma degenerate_mass: "mass degenerate_store 0 1 = Fin 0"
  by (simp add: mass_def weight_vector_def degenerate_store_def col_def vmul_def fsum_def)

text \<open>
  Claim C1, as stated, fails: in a class of two identical observations whose second
  component has responsibility 0 everywhere, that component's mass is 0; the M-step
  returns normally, with NaN as the component's mean and 0 as its mixing weight.
\<close>

theorem m_step_returns_nan_mean_on_zero_mass:
  "mass degenerate_store 0 1 = Fin 0
   \<and> map_sum id mu (m_step (Some (self_X degenerate_store)) degenerate_store)
       = Inr [[[Fin 1, NaN]]]
   \<and> map_sum id latent_var_prior (m_step (Some (self_X degenerate_store)) degenerate_store)
       = Inr [[Fin 1, Fin 0]]"
proof (intro conjI)
  show "mass degenerate_store 0 1 = Fin 0" by (rule degenerate_mass)
  show "map_sum id mu (m_step (Some (self_X degenerate_store)) degenerate_store)
       = Inr [[[Fin 1, NaN]]]"
    by (simp add: degenerate_store_def eval_defs inf_of_sign_def)
  show "map_sum id latent_var_prior (m_step (Some (self_X degenerate_store)) degenerate_store)
       = Inr [[Fin 1, Fin 0]]"
    by (simp add: degenerate_store_def eval_defs inf_of_sign_def)
qed

text \<open>
  Claim C1, amended. The M-step raises no error for a component without mass. For a store
  of consistent shapes (and a global \<^verbatim>\<open>X\<close> of the shape of the data) it returns normally;
  when the mass of a component is 0, every entry of the mean it stores for that component
  is the result of a division by zero, hence NaN or infinite, and the mixing weight it
  stores is 0 divided by the class frequency.
\<close>

theorem m_step_raises_nothing_on_zero_mass:
  assumes wf: "wf_store st" and G: "has_shape (self_n st) (self_m st) G"
    and i: "i < self_k st" and j: "j < clusters st ! i"
    and zero: "mass st i j = Fin 0"
  shows "\<exists>st'. m_step (Some G) st = Inr st'
           \<and> (\<forall>a<self_m st. \<not> is_fin (mu st' ! i ! a ! j))
           \<and> latent_var_prior st' ! i ! j = fdiv (Fin 0) (freq st ! i)"
proof -
  from m_step_closed[OF wf G] obtain s where
    run: "m_step (Some G) st
               = Inr (s\<lparr>covar := mdivs (foldl madd (zeros2 (self_m st) (self_m st))
                                            (map (m_scatter G st) (components st)))
                                     (Fin (real (self_n st)))\<rparr>)"
    and fr: "m_frame st s" and wfs: "wf_store s"
    and vals: "\<forall>i<self_k st. \<forall>j<clusters st ! i.
                 col (mu s ! i) j = weighted_mean G st i j
                 \<and> latent_var_prior s ! i ! j = fdiv (mass st i j) (freq st ! i)"
    by blast
  let ?s = "s\<lparr>covar := mdivs (foldl madd (zeros2 (self_m st) (self_m st))
                                            (map (m_scatter G st) (components st)))
                                     (Fin (real (self_n st)))\<rparr>"
  from vals i j have c: "col (mu s ! i) j = weighted_mean G st i j"
    and l: "latent_var_prior s ! i ! j = fdiv (mass st i j) (freq st ! i)" by simp_all
  have km: "self_k s = self_k st" "self_m s = self_m st"
    using fr by (simp_all add: m_frame_def same_data_def)
  have len: "length (mu s ! i) = self_m st"
    using wfs i km by (simp add: wf_store_def has_shape_def)
  have "\<forall>a<self_m st. \<not> is_fin (mu ?s ! i ! a ! j)"
  proof (intro allI impI)
    fix a assume a: "a < self_m st"
    have lw: "length (sum_axis1 (dot (mtranspose G) (diagflat (weight_vector st i j)))) = self_m st"
      using length_weighted_mean[OF G, of st i j] wf
      by (simp add: weighted_mean_def vdivs_def wf_store_def)
    have "mu s ! i ! a ! j = col (mu s ! i) j ! a" using a len by (simp add: nth_col)
    also have "\<dots> = fdiv (sum_axis1 (dot (mtranspose G) (diagflat (weight_vector st i j))) ! a) (Fin 0)"
      using a lw by (simp add: c weighted_mean_def vdivs_def zero)
    finally show "\<not> is_fin (mu ?s ! i ! a ! j)" by (simp add: fdiv_zero_not_fin)
  qed
  moreover have "latent_var_prior ?s ! i ! j = fdiv (Fin 0) (freq st ! i)"
    using l zero by simp
  ultimately show ?thesis using run by blast
qed

theorem m_step_zero_mass_witness:
  "wf_store degenerate_store
   \<and> has_shape (self_n degenerate_store) (self_m degenerate_store) (self_X degenerate_store)
   \<and> 0 < self_k degenerate_store \<and> 1 < clusters degenerate_store ! 0
   \<and> mass degenerate_store 0 1 = Fin 0
   \<and> (\<exists>st'. m_step (Some (self_X degenerate_store)) degenerate_store = Inr st'
           \<and> \<not> is_fin (mu st' ! 0 ! 0 ! 1)
           \<and> latent_var_prior st' ! 0 ! 1 = Fin 0)"
proof -
  have i: "0 < self_k degenerate_store" and j: "1 < clusters degenerate_store ! 0"
    and m: "0 < self_m degenerate_store"
    by (simp_all add: degenerate_store_def)
  from m_step_raises_nothing_on_zero_mass[OF degenerate_wf degenerate_G i j degenerate_mass]
  obtain st' where run: "m_step (Some (self_X degenerate_store)) degenerate_store = Inr st'"
    and nf: "\<forall>a<self_m degenerate_store. \<not> is_fin (mu st' ! 0 ! a ! 1)"
    and l: "latent_var_prior st' ! 0 ! 1 = fdiv (Fin 0) (freq degenerate_store ! 0)"
    by blast
  from nf m have "\<not> is_fin (mu st' ! 0 ! 0 ! 1)" by blast
  moreover from l have "latent_var_prior st' ! 0 ! 1 = Fin 0"
    by (simp add: degenerate_store_def)
  ultimately show ?thesis using degenerate_wf degenerate_G i j degenerate_mass run by blast
qed


section \<open>The pooled covariance\<close>















































end
